theory Spec2Isabelle
  imports Main "HOL-Library.Sublist"
begin

section \<open>Python values used by app.py\<close>

text \<open>
  A Python \<open>str\<close> is a sequence of Unicode code points, so it is modelled as a list of
  natural numbers (one per code point), not as a byte string: \<open>in\<close>, \<open>split\<close>,
  \<open>strip\<close> and \<open>isdigit\<close> all work on code points.  The Korean literals of the source
  are written by their code points; \<open>ustr\<close> embeds an ASCII literal.
\<close>

type_synonym pystr = "nat list"

definition ustr :: "string \<Rightarrow> pystr" where
  "ustr s = map of_char s"

text \<open>The exceptions that the modelled code can raise.\<close>

datatype py_error = IndexError | ValueError | OverflowError

subsection \<open>Character classes\<close>

text \<open>\<open>str.isspace\<close> for one code point (the table of CPython's \<open>_PyUnicode_IsWhitespace\<close>);
  this is the set that \<open>str.strip()\<close> removes.\<close>

definition py_isspace :: "nat \<Rightarrow> bool" where
  "py_isspace c \<longleftrightarrow>
     (9 \<le> c \<and> c \<le> 13) \<or> (28 \<le> c \<and> c \<le> 32) \<or> c = 133 \<or> c = 160 \<or> c = 5760 \<or>
     (8192 \<le> c \<and> c \<le> 8202) \<or> c = 8232 \<or> c = 8233 \<or> c = 8239 \<or> c = 8287 \<or> c = 12288"

text \<open>C-locale \<open>Py_ISSPACE\<close>, used by \<open>int\<close> and \<open>float\<close> after the text has been
  mapped to ASCII.\<close>

definition c_isspace :: "nat \<Rightarrow> bool" where
  "c_isspace c \<longleftrightarrow> (9 \<le> c \<and> c \<le> 13) \<or> c = 32"

definition ascii_digit :: "nat \<Rightarrow> bool" where
  "ascii_digit c \<longleftrightarrow> 48 \<le> c \<and> c \<le> 57"

text \<open>The code points with a decimal digit value (general category Nd, Unicode 14.0 as
  shipped with CPython 3.11), as inclusive ranges.  Within a range the value of a code
  point is its offset modulo 10.\<close>

definition decimal_ranges :: "(nat \<times> nat) list" where
  "decimal_ranges =
    [(48, 57), (1632, 1641), (1776, 1785), (1984, 1993), (2406, 2415), (2534, 2543),
     (2662, 2671), (2790, 2799), (2918, 2927), (3046, 3055), (3174, 3183), (3302, 3311),
     (3430, 3439), (3558, 3567), (3664, 3673), (3792, 3801), (3872, 3881), (4160, 4169),
     (4240, 4249), (6112, 6121), (6160, 6169), (6470, 6479), (6608, 6617), (6784, 6793),
     (6800, 6809), (6992, 7001), (7088, 7097), (7232, 7241), (7248, 7257), (42528, 42537),
     (43216, 43225), (43264, 43273), (43472, 43481), (43504, 43513), (43600, 43609),
     (44016, 44025), (65296, 65305), (66720, 66729), (68912, 68921), (69734, 69743),
     (69872, 69881), (69942, 69951), (70096, 70105), (70384, 70393), (70736, 70745),
     (70864, 70873), (71248, 71257), (71360, 71369), (71472, 71481), (71904, 71913),
     (72016, 72025), (72784, 72793), (73040, 73049), (73120, 73129), (92768, 92777),
     (92864, 92873), (93008, 93017), (120782, 120831), (123200, 123209), (123632, 123641),
     (125264, 125273), (130032, 130041)]"

text \<open>The further code points for which \<open>str.isdigit\<close> holds (Numeric_Type = Digit:
  superscripts, subscripts, circled digits and the like).\<close>

definition other_digit_ranges :: "(nat \<times> nat) list" where
  "other_digit_ranges =
    [(178, 179), (185, 185), (4969, 4977), (6618, 6618), (8304, 8304), (8308, 8313),
     (8320, 8329), (9312, 9320), (9332, 9340), (9352, 9360), (9450, 9450), (9461, 9469),
     (9471, 9471), (10102, 10110), (10112, 10120), (10122, 10130), (68160, 68163),
     (69216, 69224), (69714, 69722), (127232, 127242)]"

definition in_range :: "nat \<Rightarrow> nat \<times> nat \<Rightarrow> bool" where
  "in_range c r \<longleftrightarrow> fst r \<le> c \<and> c \<le> snd r"

definition unicode_decimal :: "nat \<Rightarrow> nat option" where
  "unicode_decimal c =
     (case find (in_range c) decimal_ranges of
        None \<Rightarrow> None
      | Some r \<Rightarrow> Some ((c - fst r) mod 10))"

definition py_isdigit :: "nat \<Rightarrow> bool" where
  "py_isdigit c \<longleftrightarrow> list_ex (in_range c) decimal_ranges \<or> list_ex (in_range c) other_digit_ranges"

subsection \<open>String operations\<close>

definition py_strip :: "pystr \<Rightarrow> pystr" where
  "py_strip s = rev (dropWhile py_isspace (rev (dropWhile py_isspace s)))"

text \<open>\<open>sub in s\<close>.\<close>

fun py_contains :: "pystr \<Rightarrow> pystr \<Rightarrow> bool" where
  "py_contains sub [] = (sub = [])"
| "py_contains sub (c # s) = (prefix sub (c # s) \<or> py_contains sub s)"

text \<open>\<open>s.split(sep)\<close>: the pieces between the non-overlapping occurrences of \<open>sep\<close>, found
  from the left; an empty separator raises \<open>ValueError\<close>.  \<open>split_from sep acc s\<close> is the
  scan with \<open>acc\<close> the piece collected so far.\<close>

fun split_from :: "pystr \<Rightarrow> pystr \<Rightarrow> pystr \<Rightarrow> pystr list" where
  "split_from sep acc [] = [acc]"
| "split_from sep acc (c # s) =
     (if sep \<noteq> [] \<and> prefix sep (c # s)
      then acc # split_from sep [] (drop (length sep) (c # s))
      else split_from sep (acc @ [c]) s)"

definition py_split :: "pystr \<Rightarrow> pystr \<Rightarrow> py_error + pystr list" where
  "py_split s sep = (if sep = [] then Inl ValueError else Inr (split_from sep [] s))"

text \<open>\<open>xs[i]\<close> for a non-negative index.\<close>

definition py_index :: "'a list \<Rightarrow> nat \<Rightarrow> py_error + 'a" where
  "py_index xs i = (if i < length xs then Inr (xs ! i) else Inl IndexError)"

subsection \<open>Numbers from text: \<open>int(s)\<close> and \<open>float(s)\<close>\<close>

text \<open>Both constructors first map the text to ASCII
  (\<open>_PyUnicode_TransformDecimalAndSpaceToASCII\<close>): a pure-ASCII text is kept; otherwise
  code points below 127 are kept, other white space becomes a blank, a decimal digit becomes
  its ASCII digit, and the text is cut after a question mark at the first other code point.\<close>

fun transform_loop :: "pystr \<Rightarrow> pystr" where
  "transform_loop [] = []"
| "transform_loop (c # s) =
     (if c < 127 then c # transform_loop s
      else if py_isspace c then 32 # transform_loop s
      else (case unicode_decimal c of
              None \<Rightarrow> [63]
            | Some d \<Rightarrow> (48 + d) # transform_loop s))"

definition to_ascii :: "pystr \<Rightarrow> pystr" where
  "to_ascii s = (if list_all (\<lambda>c. c < 128) s then s else transform_loop s)"

definition c_strip :: "pystr \<Rightarrow> pystr" where
  "c_strip s = rev (dropWhile c_isspace (rev (dropWhile c_isspace s)))"

text \<open>The value of a list of ASCII digits, most significant first.\<close>

definition digits_value :: "pystr \<Rightarrow> nat" where
  "digits_value ds = foldl (\<lambda>acc c. 10 * acc + (c - 48)) 0 ds"

text \<open>A digit part: digits with single underscores between them.  The result is the
  digits without the underscores, \<open>None\<close> when the text is not a digit part.\<close>

fun digitpart :: "pystr \<Rightarrow> pystr option" where
  "digitpart [] = None"
| "digitpart [c] = (if ascii_digit c then Some [c] else None)"
| "digitpart (c # d # s) =
     (if \<not> ascii_digit c then None
      else if d = 95 then map_option (Cons c) (digitpart s)
      else map_option (Cons c) (digitpart (d # s)))"

text \<open>The limit of CPython on the conversion between integers and decimal text
  (\<open>sys.get_int_max_str_digits()\<close>, 4300 by default since 3.11): a conversion of
  more digits raises \<open>ValueError\<close>.\<close>

definition int_max_str_digits :: nat where
  "int_max_str_digits = 4300"

text \<open>\<open>int(s)\<close> in base 10: surrounding white space, an optional sign, a digit part of at
  most \<open>int_max_str_digits\<close> digits (leading zeros count, underscores do not).\<close>

definition py_int :: "pystr \<Rightarrow> py_error + int" where
  "py_int s =
     (let t = c_strip (to_ascii s);
          neg = (t \<noteq> [] \<and> hd t = 45);
          body = (if t \<noteq> [] \<and> (hd t = 43 \<or> hd t = 45) then tl t else t)
      in case digitpart body of
           None \<Rightarrow> Inl ValueError
         | Some ds \<Rightarrow>
             if int_max_str_digits < length ds then Inl ValueError
             else Inr (if neg then - int (digits_value ds) else int (digits_value ds)))"

text \<open>A Python \<open>float\<close> is an IEEE 754 binary64 value: \<open>Finite neg m p\<close> is
  \<open>\<plusminus> m * 2^p\<close> with \<open>m < 2^53\<close> and \<open>-1074 \<le> p \<le> 971\<close> (\<open>m \<ge> 2^52\<close> unless \<open>p = -1074\<close>),
  \<open>Infinite neg\<close> is an infinity, \<open>NaN\<close> is not-a-number.\<close>

datatype pyfloat = Finite bool nat int | Infinite bool | NaN

fun bit_length :: "nat \<Rightarrow> nat" where
  "bit_length n = (if n = 0 then 0 else Suc (bit_length (n div 2)))"

declare bit_length.simps [simp del]

text \<open>\<open>scale2 n d k\<close> is the fraction \<open>n / d\<close> times \<open>2^k\<close>, as a fraction.\<close>

definition scale2 :: "nat \<Rightarrow> nat \<Rightarrow> int \<Rightarrow> nat \<times> nat" where
  "scale2 n d k = (if 0 \<le> k then (n * 2 ^ nat k, d) else (n, d * 2 ^ nat (- k)))"

definition round_half_even :: "nat \<times> nat \<Rightarrow> nat" where
  "round_half_even f =
     (let q = fst f div snd f; r = fst f mod snd f
      in if snd f < 2 * r \<or> (2 * r = snd f \<and> odd q) then q + 1 else q)"

text \<open>The binary64 value nearest to \<open>n / d\<close> (\<open>d > 0\<close>), ties to even, as correctly rounded
  string conversion gives it.  \<open>e\<close> is the binary exponent of \<open>n / d\<close>, \<open>p\<close> the exponent
  of the last place; a value beyond the largest finite one becomes an infinity.\<close>

definition float_of_ratio :: "bool \<Rightarrow> nat \<Rightarrow> nat \<Rightarrow> pyfloat" where
  "float_of_ratio neg n d =
     (if n = 0 then Finite neg 0 (- 1074)
      else
        let e0 = int (bit_length n) - int (bit_length d);
            e = (if fst (scale2 n d (- e0)) < snd (scale2 n d (- e0)) then e0 - 1 else e0);
            p = max e (- 1022) - 52;
            m = round_half_even (scale2 n d (- p));
            m' = (if m = 2 ^ 53 then 2 ^ 52 else m);
            p' = (if m = 2 ^ 53 then p + 1 else p)
        in if 971 < p' then Infinite neg else Finite neg m' p')"

text \<open>The float denoted by the decimal \<open>m * 10^e\<close>.\<close>

definition float_of_decimal :: "bool \<Rightarrow> nat \<Rightarrow> int \<Rightarrow> pyfloat" where
  "float_of_decimal neg m e =
     (if 0 \<le> e then float_of_ratio neg (m * 10 ^ nat e) 1
      else float_of_ratio neg m (10 ^ nat (- e)))"

definition lower_ascii :: "nat \<Rightarrow> nat" where
  "lower_ascii c = (if 65 \<le> c \<and> c \<le> 90 then c + 32 else c)"

text \<open>The exponent part of a float literal: empty, or \<open>e\<close>/\<open>E\<close>, an optional sign and at
  least one digit, up to the end of the text.\<close>

definition parse_exponent :: "pystr \<Rightarrow> int option" where
  "parse_exponent s =
     (if s = [] then Some 0
      else if hd s \<noteq> 101 \<and> hd s \<noteq> 69 then None
      else
        let t = tl s;
            neg = (t \<noteq> [] \<and> hd t = 45);
            ds = (if t \<noteq> [] \<and> (hd t = 43 \<or> hd t = 45) then tl t else t)
        in if ds \<noteq> [] \<and> list_all ascii_digit ds
           then Some (if neg then - int (digits_value ds) else int (digits_value ds))
           else None)"

text \<open>An unsigned float literal without underscores: \<open>inf\<close>, \<open>infinity\<close> or \<open>nan\<close> in any
  letter case, or digits with an optional point and exponent, at least one digit before the
  exponent.\<close>

definition parse_unsigned_float :: "bool \<Rightarrow> pystr \<Rightarrow> pyfloat option" where
  "parse_unsigned_float neg s =
     (if map lower_ascii s = ustr ''inf'' \<or> map lower_ascii s = ustr ''infinity''
      then Some (Infinite neg)
      else if map lower_ascii s = ustr ''nan'' then Some NaN
      else
        let ip = takeWhile ascii_digit s;
            r1 = dropWhile ascii_digit s;
            r2 = (if r1 \<noteq> [] \<and> hd r1 = 46 then tl r1 else r1);
            fp = (if r1 \<noteq> [] \<and> hd r1 = 46 then takeWhile ascii_digit r2 else []);
            r3 = (if r1 \<noteq> [] \<and> hd r1 = 46 then dropWhile ascii_digit r2 else r1)
        in if ip = [] \<and> fp = [] then None
           else (case parse_exponent r3 of
                   None \<Rightarrow> None
                 | Some ex \<Rightarrow>
                     Some (float_of_decimal neg (digits_value (ip @ fp)) (ex - int (length fp)))))"

text \<open>Underscores are accepted only between two digits and are then dropped
  (\<open>_Py_string_to_number_with_underscores\<close>); \<open>prev\<close> is the previous character.\<close>

fun drop_underscores :: "nat \<Rightarrow> pystr \<Rightarrow> pystr option" where
  "drop_underscores prev [] = (if prev = 95 then None else Some [])"
| "drop_underscores prev (c # s) =
     (if c = 95 then (if ascii_digit prev then drop_underscores c s else None)
      else if prev = 95 \<and> \<not> ascii_digit c then None
      else map_option (Cons c) (drop_underscores c s))"

text \<open>\<open>float(s)\<close>.\<close>

definition py_float :: "pystr \<Rightarrow> py_error + pyfloat" where
  "py_float s =
     (case drop_underscores 0 (c_strip (to_ascii s)) of
        None \<Rightarrow> Inl ValueError
      | Some t \<Rightarrow>
          let neg = (t \<noteq> [] \<and> hd t = 45);
              body = (if t \<noteq> [] \<and> (hd t = 43 \<or> hd t = 45) then tl t else t)
          in (case parse_unsigned_float neg body of
                None \<Rightarrow> Inl ValueError
              | Some x \<Rightarrow> Inr x))"

text \<open>\<open>int(x)\<close> for a float: truncation towards zero; an infinity raises
  \<open>OverflowError\<close>, not-a-number raises \<open>ValueError\<close>.\<close>

fun int_of_float :: "pyfloat \<Rightarrow> py_error + int" where
  "int_of_float (Finite neg m p) =
     (let a = (if 0 \<le> p then m * 2 ^ nat p else m div 2 ^ nat (- p))
      in Inr (if neg then - int a else int a))"
| "int_of_float (Infinite neg) = Inl OverflowError"
| "int_of_float NaN = Inl ValueError"

text \<open>The decimal digits of a natural number, and the format \<open>{:02d}\<close> of an integer,
  which raises \<open>ValueError\<close> when the integer has more than \<open>int_max_str_digits\<close>
  digits.\<close>

fun str_of_nat :: "nat \<Rightarrow> pystr" where
  "str_of_nat n = (if n < 10 then [48 + n] else str_of_nat (n div 10) @ [48 + n mod 10])"

declare str_of_nat.simps [simp del]

definition format_02d :: "int \<Rightarrow> py_error + pystr" where
  "format_02d n =
     (if int_max_str_digits < length (str_of_nat (nat \<bar>n\<bar>)) then Inl ValueError
      else if n < 0 then Inr (45 # str_of_nat (nat (- n)))
      else Inr (replicate (2 - length (str_of_nat (nat n))) 48 @ str_of_nat (nat n)))"

section \<open>Time conversion\<close>

text \<open>The body of the \<open>try\<close> block of \<open>time_to_seconds\<close>.\<close>

definition time_to_seconds_try :: "pystr \<Rightarrow> py_error + int" where
  "time_to_seconds_try time_str =
     (case py_split time_str [58] of
        Inl e \<Rightarrow> Inl e
      | Inr parts \<Rightarrow>
     (case py_index parts 0 of Inl e \<Rightarrow> Inl e | Inr p0 \<Rightarrow>
     (case py_int p0 of Inl e \<Rightarrow> Inl e | Inr hours \<Rightarrow>
     (case py_index parts 1 of Inl e \<Rightarrow> Inl e | Inr p1 \<Rightarrow>
     (case py_int p1 of Inl e \<Rightarrow> Inl e | Inr minutes \<Rightarrow>
     (case (if 3 \<le> length parts
            then (case py_index parts 2 of Inl e \<Rightarrow> Inl e | Inr p2 \<Rightarrow>
                 (case py_float p2 of Inl e \<Rightarrow> Inl e | Inr f \<Rightarrow> int_of_float f))
            else Inr 0) of
        Inl e \<Rightarrow> Inl e
      | Inr seconds \<Rightarrow> Inr (hours * 3600 + minutes * 60 + seconds)))))))"

text \<open>\<open>except Exception: return None\<close>.\<close>

definition time_to_seconds :: "pystr \<Rightarrow> int option" where
  "time_to_seconds time_str =
     (case time_to_seconds_try time_str of Inl e \<Rightarrow> None | Inr n \<Rightarrow> Some n)"

definition seconds_to_time_str :: "int \<Rightarrow> py_error + pystr" where
  "seconds_to_time_str seconds =
     (let hours = seconds div 3600;
          minutes = (seconds mod 3600) div 60;
          seconds' = seconds mod 60
      in case format_02d hours of Inl e \<Rightarrow> Inl e | Inr hh \<Rightarrow>
        (case format_02d minutes of Inl e \<Rightarrow> Inl e | Inr mm \<Rightarrow>
        (case format_02d seconds' of Inl e \<Rightarrow> Inl e | Inr ss \<Rightarrow>
           Inr (hh @ [58] @ mm @ [58] @ ss))))"

section \<open>Grids\<close>

text \<open>A pandas \<open>DataFrame\<close> read from a sheet: a rectangular table addressed by position.
  A cell is either missing (\<open>NaN\<close>, here \<open>None\<close>) or carries a value; the code only ever
  looks at the \<open>str()\<close> form of a value, so a present cell is represented by that text
  (a value without such a form, like an integer of more than 4300 digits, whose \<open>str()\<close>
  raises, is not a cell of this model).\<close>

record dataframe =
  nrows :: nat
  ncols :: nat
  cell :: "nat \<Rightarrow> nat \<Rightarrow> pystr option"

text \<open>\<open>df.iloc[row, col]\<close> with non-negative positions: out of bounds raises
  \<open>IndexError\<close>.\<close>

definition iloc :: "dataframe \<Rightarrow> nat \<Rightarrow> nat \<Rightarrow> py_error + pystr option" where
  "iloc df row col =
     (if row < nrows df \<and> col < ncols df then Inr (cell df row col) else Inl IndexError)"

text \<open>\<open>sheet.fillna('').astype(str)\<close>: a missing cell becomes the empty text.\<close>

definition fillna_astype_str :: "dataframe \<Rightarrow> dataframe" where
  "fillna_astype_str sheet =
     sheet\<lparr>cell := (\<lambda>r c. Some (case cell sheet r c of None \<Rightarrow> [] | Some s \<Rightarrow> s))\<rparr>"

section \<open>The program locator\<close>

text \<open>The \<open>try\<close> block of \<open>find_program_data_improved\<close>:
  \<open>float(cell_value.split(program_name)[1].strip().split('(')[0].strip())\<close>.\<close>

definition rating_of_cell :: "pystr \<Rightarrow> pystr \<Rightarrow> py_error + pyfloat" where
  "rating_of_cell cell_value program_name =
     (case py_split cell_value program_name of Inl e \<Rightarrow> Inl e | Inr parts \<Rightarrow>
     (case py_index parts 1 of Inl e \<Rightarrow> Inl e | Inr part \<Rightarrow>
     (case py_split (py_strip part) [40] of Inl e \<Rightarrow> Inl e | Inr pieces \<Rightarrow>
     (case py_index pieces 0 of Inl e \<Rightarrow> Inl e | Inr piece \<Rightarrow>
        py_float (py_strip piece)))))"

text \<open>The loop over the rows of one column.  \<open>Inr None\<close> means that the loop ran to its
  end without returning; \<open>except (IndexError, ValueError)\<close> continues with the next row.\<close>

fun scan_rows ::
  "dataframe \<Rightarrow> pystr \<Rightarrow> nat \<Rightarrow> nat list \<Rightarrow> py_error + (pyfloat \<times> nat \<times> nat) option" where
  "scan_rows df_str program_name col [] = Inr None"
| "scan_rows df_str program_name col (row # rows) =
     (case iloc df_str row col of
        Inl e \<Rightarrow> Inl e
      | Inr v \<Rightarrow>
          (let cell_value = py_strip (case v of None \<Rightarrow> [] | Some s \<Rightarrow> s)
           in if cell_value \<noteq> [] \<and> py_contains program_name cell_value
              then if list_ex py_isdigit cell_value
                   then (case rating_of_cell cell_value program_name of
                           Inr rating \<Rightarrow> Inr (Some (rating, row, col))
                         | Inl e \<Rightarrow>
                             if e = IndexError \<or> e = ValueError
                             then scan_rows df_str program_name col rows
                             else Inl e)
                   else scan_rows df_str program_name col rows
              else scan_rows df_str program_name col rows))"

text \<open>The loop over the columns \<open>range(1, 5)\<close>.\<close>

fun scan_cols ::
  "dataframe \<Rightarrow> pystr \<Rightarrow> nat list \<Rightarrow> py_error + (pyfloat \<times> nat \<times> nat) option" where
  "scan_cols df_str program_name [] = Inr None"
| "scan_cols df_str program_name (col # cols) =
     (case scan_rows df_str program_name col [0 ..< nrows df_str] of
        Inl e \<Rightarrow> Inl e
      | Inr (Some hit) \<Rightarrow> Inr (Some hit)
      | Inr None \<Rightarrow> scan_cols df_str program_name cols)"

text \<open>The loop over the program names.\<close>

fun scan_names ::
  "dataframe \<Rightarrow> pystr list \<Rightarrow> py_error + (pyfloat \<times> nat \<times> nat) option" where
  "scan_names df_str [] = Inr None"
| "scan_names df_str (program_name # program_names) =
     (case scan_cols df_str program_name [1 ..< 5] of
        Inl e \<Rightarrow> Inl e
      | Inr (Some hit) \<Rightarrow> Inr (Some hit)
      | Inr None \<Rightarrow> scan_names df_str program_names)"

type_synonym match_result = "pyfloat option \<times> nat option \<times> nat option"

definition find_program_data_improved ::
  "dataframe \<Rightarrow> pystr list \<Rightarrow> py_error + match_result" where
  "find_program_data_improved sheet program_names =
     (case scan_names (fillna_astype_str sheet) program_names of
        Inl e \<Rightarrow> Inl e
      | Inr (Some (rating, row, col)) \<Rightarrow> Inr (Some rating, Some row, Some col)
      | Inr None \<Rightarrow> Inr (None, None, None))"

section \<open>Dates: \<open>datetime.strptime(date_str, '%y%m%d')\<close> and \<open>weekday()\<close>\<close>

record date =
  year :: nat
  month :: nat
  day :: nat

text \<open>\<open>strptime\<close> matches the text against the regular expression
  \<^verbatim>\<open>(?P<y>\d\d)(?P<m>1[0-2]|0[1-9]|[1-9])(?P<d>3[0-1]|[1-2]\d|0[1-9]|[1-9]| [1-9])\<close>
  where \<^verbatim>\<open>\d\<close> is any decimal digit of Unicode.  \<open>month_alts s\<close> and \<open>day_alts s\<close> list
  the lengths of the alternatives that match at the head of \<open>s\<close>, in the order in which
  the matcher tries them.\<close>

definition re_digit :: "nat \<Rightarrow> bool" where
  "re_digit c \<longleftrightarrow> unicode_decimal c \<noteq> None"

fun month_alts :: "pystr \<Rightarrow> nat list" where
  "month_alts [] = []"
| "month_alts [c] = (if 49 \<le> c \<and> c \<le> 57 then [1] else [])"
| "month_alts (c # d # s) =
     (if c = 49 \<and> 48 \<le> d \<and> d \<le> 50 then [2] else []) @
     (if c = 48 \<and> 49 \<le> d \<and> d \<le> 57 then [2] else []) @
     (if 49 \<le> c \<and> c \<le> 57 then [1] else [])"

fun day_alts :: "pystr \<Rightarrow> nat list" where
  "day_alts [] = []"
| "day_alts [c] = (if 49 \<le> c \<and> c \<le> 57 then [1] else [])"
| "day_alts (c # d # s) =
     (if c = 51 \<and> 48 \<le> d \<and> d \<le> 49 then [2] else []) @
     (if 49 \<le> c \<and> c \<le> 50 \<and> re_digit d then [2] else []) @
     (if c = 48 \<and> 49 \<le> d \<and> d \<le> 57 then [2] else []) @
     (if 49 \<le> c \<and> c \<le> 57 then [1] else []) @
     (if c = 32 \<and> 49 \<le> d \<and> d \<le> 57 then [2] else [])"

text \<open>The first match of the expression at the start of the text: the month and day
  groups, and the text left over after the match.\<close>

definition match_month_day :: "pystr \<Rightarrow> (pystr \<times> pystr \<times> pystr) option" where
  "match_month_day s =
     (case concat (map (\<lambda>lm. map (\<lambda>ld. (lm, ld)) (day_alts (drop lm s))) (month_alts s)) of
        [] \<Rightarrow> None
      | (lm, ld) # _ \<Rightarrow> Some (take lm s, take ld (drop lm s), drop (lm + ld) s))"

definition is_leap :: "nat \<Rightarrow> bool" where
  "is_leap y \<longleftrightarrow> y mod 4 = 0 \<and> (y mod 100 \<noteq> 0 \<or> y mod 400 = 0)"

definition days_in_month :: "nat \<Rightarrow> nat \<Rightarrow> nat" where
  "days_in_month y m =
     (if m = 2 \<and> is_leap y then 29
      else [31, 28, 31, 30, 31, 30, 31, 31, 30, 31, 30, 31] ! (m - 1))"

definition strptime_yymmdd :: "pystr \<Rightarrow> py_error + date" where
  "strptime_yymmdd date_str =
     (case date_str of
        y1 # y2 # rest \<Rightarrow>
          if re_digit y1 \<and> re_digit y2
          then (case match_month_day rest of
                  None \<Rightarrow> Inl ValueError
                | Some (m, d, left) \<Rightarrow>
                    if left \<noteq> [] then Inl ValueError
                    else
                     (case py_int [y1, y2] of Inl e \<Rightarrow> Inl e | Inr y \<Rightarrow>
                     (case py_int m of Inl e \<Rightarrow> Inl e | Inr mo \<Rightarrow>
                     (case py_int d of Inl e \<Rightarrow> Inl e | Inr dy \<Rightarrow>
                        let yr = (if y \<le> 68 then nat y + 2000 else nat y + 1900)
                        in if nat dy \<le> days_in_month yr (nat mo)
                           then Inr \<lparr>year = yr, month = nat mo, day = nat dy\<rparr>
                           else Inl ValueError))))
          else Inl ValueError
      | _ \<Rightarrow> Inl ValueError)"

text \<open>The proleptic Gregorian ordinal of a date and the day of the week
  (Monday is 0, Sunday is 6), as the \<open>datetime\<close> module computes them.\<close>

definition days_before_year :: "nat \<Rightarrow> nat" where
  "days_before_year y = (y - 1) * 365 + (y - 1) div 4 - (y - 1) div 100 + (y - 1) div 400"

definition days_before_month :: "nat \<Rightarrow> nat \<Rightarrow> nat" where
  "days_before_month y m =
     [0, 31, 59, 90, 120, 151, 181, 212, 243, 273, 304, 334] ! (m - 1) +
     (if 2 < m \<and> is_leap y then 1 else 0)"

definition toordinal :: "date \<Rightarrow> nat" where
  "toordinal d = days_before_year (year d) + days_before_month (year d) (month d) + day d"

definition weekday :: "date \<Rightarrow> nat" where
  "weekday d = (toordinal d + 6) mod 7"

section \<open>The rating aggregator\<close>

text \<open>The program names: \<open>teukjip\<close> is the special-broadcast prefix, \<open>nyuseu\<close> the word
  for news.\<close>

definition teukjip :: pystr where
  "teukjip = [53945, 51665]"

definition nyuseu :: pystr where
  "nyuseu = [45684, 49828]"

definition name_news_a :: pystr where
  "name_news_a = nyuseu @ ustr ''A''"

definition name_jtbc :: pystr where
  "name_jtbc = ustr ''JTBC'' @ nyuseu @ [47352]"

definition name_mbn_center :: pystr where
  "name_mbn_center = ustr ''MBN'' @ nyuseu @ [49468, 53552]"

definition name_mbn_7 :: pystr where
  "name_mbn_7 = ustr ''MBN'' @ nyuseu @ ustr ''7''"

definition name_tv_chosun_7 :: pystr where
  "name_tv_chosun_7 = ustr ''TV'' @ [51312, 49440] @ nyuseu @ ustr ''7''"

definition name_tv_chosun_9 :: pystr where
  "name_tv_chosun_9 = ustr ''TV'' @ [51312, 49440] @ nyuseu @ ustr ''9''"

text \<open>The dictionary \<open>programs\<close>, in insertion order.  Keys are ASCII literals.\<close>

definition programs :: "bool \<Rightarrow> (string \<times> pystr list) list" where
  "programs is_weekend =
     [(''news_a'', [name_news_a, teukjip @ name_news_a]),
      (''jtbc'', [name_jtbc, teukjip @ name_jtbc]),
      (''mbn'', if is_weekend then [name_mbn_center, teukjip @ name_mbn_center]
                else [name_mbn_7, teukjip @ name_mbn_7]),
      (''tv_chosun'', if is_weekend then [name_tv_chosun_7, teukjip @ name_tv_chosun_7]
                      else [name_tv_chosun_9, teukjip @ name_tv_chosun_9])]"

record rating_record =
  name :: pystr
  paid :: "pyfloat option"
  rating_2049 :: "pyfloat option"

text \<open>\<open>d[k] = v\<close> on an insertion-ordered dictionary.\<close>

fun dict_set :: "('k \<times> 'v) list \<Rightarrow> 'k \<Rightarrow> 'v \<Rightarrow> ('k \<times> 'v) list" where
  "dict_set [] k v = [(k, v)]"
| "dict_set ((k', v') # d) k v =
     (if k' = k then (k, v) # d else (k', v') # dict_set d k v)"

text \<open>The loop over \<open>programs.items()\<close>.\<close>

fun rate_programs ::
  "dataframe \<Rightarrow> dataframe \<Rightarrow> (string \<times> rating_record) list \<Rightarrow> (string \<times> pystr list) list
     \<Rightarrow> py_error + (string \<times> rating_record) list" where
  "rate_programs sheet_paid sheet_2049 ratings [] = Inr ratings"
| "rate_programs sheet_paid sheet_2049 ratings ((program_key, program_names) # rest) =
     (case find_program_data_improved sheet_paid program_names of
        Inl e \<Rightarrow> Inl e
      | Inr (paid_rating, paid_row, paid_col) \<Rightarrow>
     (case find_program_data_improved sheet_2049 program_names of
        Inl e \<Rightarrow> Inl e
      | Inr (rating_2049', r2049_row, r2049_col) \<Rightarrow>
     (case py_index program_names 0 of
        Inl e \<Rightarrow> Inl e
      | Inr first_name \<Rightarrow>
          rate_programs sheet_paid sheet_2049
            (dict_set ratings program_key
               \<lparr>name = first_name, paid = paid_rating, rating_2049 = rating_2049'\<rparr>)
            rest)))"

definition get_program_ratings ::
  "dataframe \<Rightarrow> dataframe \<Rightarrow> pystr \<Rightarrow> py_error + (string \<times> rating_record) list" where
  "get_program_ratings sheet_paid sheet_2049 date_str =
     (case strptime_yymmdd date_str of
        Inl e \<Rightarrow> Inl e
      | Inr d \<Rightarrow>
          (let is_weekend = (5 \<le> weekday d)
           in rate_programs sheet_paid sheet_2049 [] (programs is_weekend)))"

section \<open>The structured region finder\<close>

text \<open>The header literal (\<open>peurogeuraem\<close>, "program") and the demographic marker
  (\<open>sudogwon 2049\<close>, "metropolitan area 2049").\<close>

definition header_literal :: pystr where
  "header_literal = [54532, 47196, 44536, 47016]"

definition marker_2049 :: pystr where
  "marker_2049 = [49688, 46020, 44428] @ ustr '' 2049''"

text \<open>The first loop of \<open>find_news_a_data\<close>: the first row whose cell in column 0 is present
  and, stripped, equals the header literal.  \<open>Inr None\<close>: the loop ended without \<open>break\<close>.\<close>

fun find_program_row :: "dataframe \<Rightarrow> nat list \<Rightarrow> py_error + nat option" where
  "find_program_row df [] = Inr None"
| "find_program_row df (row # rows) =
     (case iloc df row 0 of
        Inl e \<Rightarrow> Inl e
      | Inr None \<Rightarrow> find_program_row df rows
      | Inr (Some s) \<Rightarrow>
          if py_strip s = header_literal then Inr (Some row) else find_program_row df rows)"

text \<open>The header-row lookup with its \<open>raise ValueError\<close> when no row was found.\<close>

definition lookup_program_row :: "dataframe \<Rightarrow> py_error + nat" where
  "lookup_program_row df =
     (case find_program_row df [0 ..< nrows df] of
        Inl e \<Rightarrow> Inl e
      | Inr None \<Rightarrow> Inl ValueError
      | Inr (Some program_row) \<Rightarrow> Inr program_row)"

text \<open>The columns of the header row that carry the header literal.\<close>

fun collect_program_cols :: "dataframe \<Rightarrow> nat \<Rightarrow> nat list \<Rightarrow> py_error + nat list" where
  "collect_program_cols df program_row [] = Inr []"
| "collect_program_cols df program_row (col # cols) =
     (case iloc df program_row col of
        Inl e \<Rightarrow> Inl e
      | Inr v \<Rightarrow>
          (case collect_program_cols df program_row cols of
             Inl e \<Rightarrow> Inl e
           | Inr found \<Rightarrow>
               if (case v of None \<Rightarrow> False | Some s \<Rightarrow> py_strip s = header_literal)
               then Inr (col # found) else Inr found))"

text \<open>The search of row 0 for the demographic marker, over the given columns.\<close>

fun find_2049_col :: "dataframe \<Rightarrow> nat list \<Rightarrow> py_error + nat option" where
  "find_2049_col df [] = Inr None"
| "find_2049_col df (col # cols) =
     (case iloc df 0 col of
        Inl e \<Rightarrow> Inl e
      | Inr None \<Rightarrow> find_2049_col df cols
      | Inr (Some s) \<Rightarrow>
          if py_contains marker_2049 s then Inr (Some col) else find_2049_col df cols)"

text \<open>The variables that the search sets.\<close>

record region =
  news_a_row :: "nat option"
  found_program_col :: "nat option"
  found_time_col :: "nat option"
  found_rating_col :: "nat option"
  found_2049_col :: "nat option"

definition no_region :: region where
  "no_region = \<lparr>news_a_row = None, found_program_col = None, found_time_col = None,
     found_rating_col = None, found_2049_col = None\<rparr>"

text \<open>The body of the innermost \<open>if\<close>: what a matching row assigns.\<close>

definition on_match :: "dataframe \<Rightarrow> nat \<Rightarrow> nat \<Rightarrow> region \<Rightarrow> py_error + region" where
  "on_match df row program_col st =
     (case find_2049_col df [program_col ..< min (program_col + 10) (ncols df)] of
        Inl e \<Rightarrow> Inl e
      | Inr w \<Rightarrow>
          Inr \<lparr>news_a_row = Some row,
               found_program_col = Some program_col,
               found_time_col = Some (program_col + 1),
               found_rating_col = Some (program_col + 2),
               found_2049_col = (case w of None \<Rightarrow> found_2049_col st | Some c \<Rightarrow> Some c)\<rparr>)"

text \<open>Modelled from the spec: the source text of \<open>find_news_a_data\<close> ends right after the
  window search (inside the statement that follows it), so how the two loops go on after a
  match and what the function returns are missing.  The spec (4.5) says that the first
  match fixes the columns, that the demographic column may stay unset, and that the result
  is the record of program row, program column, time column, rating column and
  demographic column.  Accordingly the scan stops at the first matching row and the
  function returns the five variables; they are all unset when no row matches.\<close>

fun scan_news_rows :: "dataframe \<Rightarrow> nat \<Rightarrow> nat list \<Rightarrow> py_error + region option" where
  "scan_news_rows df program_col [] = Inr None"
| "scan_news_rows df program_col (row # rows) =
     (case iloc df row program_col of
        Inl e \<Rightarrow> Inl e
      | Inr None \<Rightarrow> scan_news_rows df program_col rows
      | Inr (Some s) \<Rightarrow>
          if py_strip s \<in> set [name_news_a, teukjip @ name_news_a]
          then (case on_match df row program_col no_region of
                  Inl e \<Rightarrow> Inl e
                | Inr st \<Rightarrow> Inr (Some st))
          else scan_news_rows df program_col rows)"

text \<open>Modelled from the spec: the loop over the header columns ends at the first column
  with a match (the source text is cut before the end of this loop).\<close>

fun scan_program_cols :: "dataframe \<Rightarrow> nat \<Rightarrow> nat list \<Rightarrow> py_error + region" where
  "scan_program_cols df program_row [] = Inr no_region"
| "scan_program_cols df program_row (program_col # program_cols) =
     (case scan_news_rows df program_col [program_row + 1 ..< nrows df] of
        Inl e \<Rightarrow> Inl e
      | Inr (Some st) \<Rightarrow> Inr st
      | Inr None \<Rightarrow> scan_program_cols df program_row program_cols)"

text \<open>Modelled from the spec: the \<open>return\<close> of \<open>find_news_a_data\<close> is missing from the
  source text; the function is taken to return the five variables.  The header-row lookup
  and the collection of the header columns are from the source.\<close>

definition find_news_a_data :: "dataframe \<Rightarrow> py_error + region" where
  "find_news_a_data df =
     (case lookup_program_row df of
        Inl e \<Rightarrow> Inl e
      | Inr program_row \<Rightarrow>
          (case collect_program_cols df program_row [0 ..< ncols df] of
             Inl e \<Rightarrow> Inl e
           | Inr program_cols \<Rightarrow> scan_program_cols df program_row program_cols))"

section \<open>Notions of the specification\<close>

text \<open>The text of a cell as the locator sees it: missing cells are empty, all cells are
  stripped.\<close>

definition cell_text :: "dataframe \<Rightarrow> nat \<Rightarrow> nat \<Rightarrow> pystr" where
  "cell_text df row col = py_strip (case cell df row col of None \<Rightarrow> [] | Some s \<Rightarrow> s)"

text \<open>A cell text is a candidate for a name when it is non-empty, contains the name and
  contains a digit.\<close>

definition candidate :: "pystr \<Rightarrow> pystr \<Rightarrow> bool" where
  "candidate program_name text \<longleftrightarrow>
     text \<noteq> [] \<and> py_contains program_name text \<and> list_ex py_isdigit text"

text \<open>The rating that a cell yields for a name: that of a candidate whose extracted
  rating parses.\<close>

definition parsed_rating :: "dataframe \<Rightarrow> pystr \<Rightarrow> nat \<Rightarrow> nat \<Rightarrow> pyfloat option" where
  "parsed_rating df program_name col row =
     (if candidate program_name (cell_text df row col)
      then (case rating_of_cell (cell_text df row col) program_name of
              Inl e \<Rightarrow> None
            | Inr x \<Rightarrow> Some x)
      else None)"

text \<open>The scan order: names in list order, for each name the columns 1 to 4, within a
  column the rows from the top.\<close>

definition scan_order :: "pystr list \<Rightarrow> nat \<Rightarrow> (pystr \<times> nat \<times> nat) list" where
  "scan_order program_names n =
     concat (map (\<lambda>nm. concat (map (\<lambda>c. map (\<lambda>r. (nm, c, r)) [0 ..< n]) [1 ..< 5]))
       program_names)"

text \<open>The first result that a function gives along a list.\<close>

fun first_some :: "('a \<Rightarrow> 'b option) \<Rightarrow> 'a list \<Rightarrow> 'b option" where
  "first_some f [] = None"
| "first_some f (x # xs) = (case f x of None \<Rightarrow> first_some f xs | Some y \<Rightarrow> Some y)"

text \<open>The locator as the specification words it: the first position in scan order whose
  cell yields a rating, or three nulls.\<close>

definition spec_locate :: "dataframe \<Rightarrow> pystr list \<Rightarrow> match_result" where
  "spec_locate df program_names =
     (case first_some
             (\<lambda>(nm, c, r). map_option (\<lambda>x. (x, r, c)) (parsed_rating df nm c r))
             (scan_order program_names (nrows df)) of
        None \<Rightarrow> (None, None, None)
      | Some (x, r, c) \<Rightarrow> (Some x, Some r, Some c))"

text \<open>The scan reaches a column that the grid does not have: the grid has rows and fewer
  than five columns, and no cell of its columns from 1 on yields a rating for the first
  name of the list.  (The positional read of the missing column is outside the \<open>try\<close>
  block, so later names are never tried.)\<close>

definition locate_raises :: "dataframe \<Rightarrow> pystr list \<Rightarrow> bool" where
  "locate_raises df program_names \<longleftrightarrow>
     (case program_names of
        [] \<Rightarrow> False
      | program_name # _ \<Rightarrow>
          0 < nrows df \<and> ncols df < 5 \<and>
          list_all (\<lambda>c. list_all (\<lambda>r. parsed_rating df program_name c r = None)
                          [0 ..< nrows df])
            [1 ..< ncols df])"

text \<open>Example inputs: a grid with one present cell, the News A name list, and the cell
  texts of the examples (\<open>choejong\<close> is the annotation "final").\<close>

definition single_cell_grid :: "nat \<Rightarrow> nat \<Rightarrow> nat \<Rightarrow> nat \<Rightarrow> pystr \<Rightarrow> dataframe" where
  "single_cell_grid nr nc r c s =
     \<lparr>nrows = nr, ncols = nc, cell = (\<lambda>i j. if i = r \<and> j = c then Some s else None)\<rparr>"

definition news_a_names :: "pystr list" where
  "news_a_names = [name_news_a, teukjip @ name_news_a]"

definition choejong :: pystr where
  "choejong = [52572, 51333]"

definition text_rating_percent :: pystr where
  "text_rating_percent = name_news_a @ ustr '' 12.3% ('' @ choejong @ ustr '')''"

definition text_rating_plain :: pystr where
  "text_rating_plain = name_news_a @ ustr '' 12.3 ('' @ choejong @ ustr '')''"

definition grid_percent :: dataframe where
  "grid_percent = single_cell_grid 4 5 3 2 text_rating_percent"

definition grid_plain :: dataframe where
  "grid_plain = single_cell_grid 4 5 3 2 text_rating_plain"

definition narrow_grid :: dataframe where
  "narrow_grid = single_cell_grid 1 3 0 0 []"

text \<open>A grid of one row and three columns whose cell in column 1 carries a rating.\<close>

definition narrow_hit_grid :: dataframe where
  "narrow_hit_grid = single_cell_grid 1 3 0 1 (name_news_a @ ustr '' 5.0'')"


text \<open>The text that follows the first occurrence of \<open>sep\<close> in a text, and the text that
  precedes the first occurrence (the whole text when there is none).\<close>

fun after_first :: "pystr \<Rightarrow> pystr \<Rightarrow> pystr" where
  "after_first sep [] = []"
| "after_first sep (c # s) =
     (if prefix sep (c # s) then drop (length sep) (c # s) else after_first sep s)"

fun before_first :: "pystr \<Rightarrow> pystr \<Rightarrow> pystr" where
  "before_first sep [] = []"
| "before_first sep (c # s) = (if prefix sep (c # s) then [] else c # before_first sep s)"

text \<open>The extraction as the specification words it: the text that follows the first
  occurrence of the name, stripped, cut at the first parenthesis, stripped, parsed.\<close>

definition spec_rating :: "pystr \<Rightarrow> pystr \<Rightarrow> py_error + pyfloat" where
  "spec_rating cell_value program_name =
     py_float (py_strip (before_first [40] (py_strip (after_first program_name cell_value))))"

text \<open>The same with the text taken only up to the next occurrence of the name.\<close>

definition rating_between :: "pystr \<Rightarrow> pystr \<Rightarrow> py_error + pyfloat" where
  "rating_between cell_value program_name =
     py_float (py_strip (before_first [40]
       (py_strip (before_first program_name (after_first program_name cell_value)))))"

text \<open>A cell that names the program twice, and a cell with the special-broadcast name.\<close>

definition text_twice :: pystr where
  "text_twice = name_news_a @ ustr '' 12.3 '' @ name_news_a @ ustr '' 4.5''"

definition text_special :: pystr where
  "text_special = teukjip @ name_news_a @ ustr '' 12.3''"

text \<open>A time text \<open>HH:MM:SS\<close> with zero-padded components of at least two digits.\<close>

definition two_digits :: "nat \<Rightarrow> pystr" where
  "two_digits n = (if n < 10 then 48 # str_of_nat n else str_of_nat n)"

definition hhmmss :: "nat \<Rightarrow> nat \<Rightarrow> nat \<Rightarrow> pystr" where
  "hhmmss h m s = two_digits h @ [58] @ two_digits m @ [58] @ two_digits s"

text \<open>Notions of the structured region finder: a cell that, stripped, equals the header
  literal; a cell that equals one of the two News A names; a cell of row 0 that contains
  the demographic marker; and the result that a match at a row and a header column fixes.\<close>

definition header_at :: "dataframe \<Rightarrow> nat \<Rightarrow> nat \<Rightarrow> bool" where
  "header_at df row col \<longleftrightarrow>
     (case cell df row col of None \<Rightarrow> False | Some s \<Rightarrow> py_strip s = header_literal)"

definition news_a_cell :: "dataframe \<Rightarrow> nat \<Rightarrow> nat \<Rightarrow> bool" where
  "news_a_cell df row col \<longleftrightarrow>
     (case cell df row col of
        None \<Rightarrow> False
      | Some s \<Rightarrow> py_strip s = name_news_a \<or> py_strip s = teukjip @ name_news_a)"

definition marker_cell :: "dataframe \<Rightarrow> nat \<Rightarrow> bool" where
  "marker_cell df col \<longleftrightarrow>
     (case cell df 0 col of None \<Rightarrow> False | Some s \<Rightarrow> py_contains marker_2049 s)"

definition region_at :: "dataframe \<Rightarrow> nat \<Rightarrow> nat \<Rightarrow> region" where
  "region_at df row program_col =
     \<lparr>news_a_row = Some row,
      found_program_col = Some program_col,
      found_time_col = Some (program_col + 1),
      found_rating_col = Some (program_col + 2),
      found_2049_col =
        find (marker_cell df) [program_col ..< min (program_col + 10) (ncols df)]\<rparr>"

definition grid_region :: dataframe where
  "grid_region =
     \<lparr>nrows = 6, ncols = 3,
      cell = (\<lambda>r c. if r = 0 \<and> c = 0 then Some header_literal
                     else if r = 5 \<and> c = 0 then Some name_news_a else None)\<rparr>"

text \<open>A grid whose only cell is the header literal after a blank, and a grid with two rows
  and no column.\<close>

definition padded_header_grid :: dataframe where
  "padded_header_grid = single_cell_grid 1 1 0 0 (ustr '' '' @ header_literal)"

definition no_column_grid :: dataframe where
  "no_column_grid = single_cell_grid 2 0 0 0 []"

text \<open>A well-formed date text \<open>YYMMDD\<close>: six ASCII digits that name a month and a day of
  that month, with the two-digit-year convention (00 to 68 mean 2000 to 2068, 69 to 99 mean
  1969 to 1999).\<close>

definition full_year :: "nat \<Rightarrow> nat" where
  "full_year yy = (if yy \<le> 68 then 2000 + yy else 1900 + yy)"

definition date_of_yymmdd :: "pystr \<Rightarrow> date" where
  "date_of_yymmdd s =
     \<lparr>year = full_year (digits_value (take 2 s)),
      month = digits_value (take 2 (drop 2 s)),
      day = digits_value (drop 4 s)\<rparr>"

definition well_formed_yymmdd :: "pystr \<Rightarrow> bool" where
  "well_formed_yymmdd s \<longleftrightarrow>
     length s = 6 \<and> list_all ascii_digit s \<and>
     1 \<le> month (date_of_yymmdd s) \<and> month (date_of_yymmdd s) \<le> 12 \<and>
     1 \<le> day (date_of_yymmdd s) \<and>
     day (date_of_yymmdd s) \<le> days_in_month (year (date_of_yymmdd s)) (month (date_of_yymmdd s))"

text \<open>The calendar, independently of the ordinal arithmetic: a valid date, and the day
  that follows a date (the next day of the month, else the first of the next month, else
  the first of January of the next year).\<close>

definition valid_date :: "date \<Rightarrow> bool" where
  "valid_date d \<longleftrightarrow>
     1 \<le> year d \<and> 1 \<le> month d \<and> month d \<le> 12 \<and>
     1 \<le> day d \<and> day d \<le> days_in_month (year d) (month d)"

definition next_day :: "date \<Rightarrow> date" where
  "next_day d =
     (if day d < days_in_month (year d) (month d)
      then \<lparr>year = year d, month = month d, day = day d + 1\<rparr>
      else if month d < 12 then \<lparr>year = year d, month = month d + 1, day = 1\<rparr>
      else \<lparr>year = year d + 1, month = 1, day = 1\<rparr>)"

text \<open>The record that the aggregator assembles for a name list, in terms of the locator
  of the specification.\<close>

definition record_for :: "dataframe \<Rightarrow> dataframe \<Rightarrow> pystr \<Rightarrow> pystr list \<Rightarrow> rating_record" where
  "record_for sheet_paid sheet_2049 first_name program_names =
     \<lparr>name = first_name,
      paid = fst (spec_locate sheet_paid program_names),
      rating_2049 = fst (spec_locate sheet_2049 program_names)\<rparr>"

text \<open>A grid with the weekday MBN programme and the rating 8.1.\<close>

definition grid_mbn :: dataframe where
  "grid_mbn = single_cell_grid 2 5 1 1 (name_mbn_7 @ ustr '' 8.1'')"

definition empty_grid :: dataframe where
  "empty_grid = single_cell_grid 0 0 0 0 []"

text \<open>A grid of four rows and three columns whose column 1 carries a rating for the first
  name of each of the four weekday programmes.\<close>

definition grid_narrow_full :: dataframe where
  "grid_narrow_full =
     \<lparr>nrows = 4, ncols = 3,
      cell = (\<lambda>r c. if c = 1 \<and> r = 0 then Some (name_news_a @ ustr '' 5.0'')
                     else if c = 1 \<and> r = 1 then Some (name_jtbc @ ustr '' 4.0'')
                     else if c = 1 \<and> r = 2 then Some (name_mbn_7 @ ustr '' 8.1'')
                     else if c = 1 \<and> r = 3 then Some (name_tv_chosun_9 @ ustr '' 3.0'')
                     else None)\<rparr>"


definition mbn_weekday_names :: "pystr list" where
  "mbn_weekday_names = [name_mbn_7, teukjip @ name_mbn_7]"

definition mbn_weekend_names :: "pystr list" where
  "mbn_weekend_names = [name_mbn_center, teukjip @ name_mbn_center]"

section \<open>Properties\<close>

subsection \<open>Evaluation rules\<close>

lemma bit_length_0 [simp]: "bit_length 0 = 0"
  by (simp add: bit_length.simps)

lemma bit_length_1 [simp]: "bit_length 1 = 1" "bit_length (Suc 0) = 1"
  by (simp_all add: bit_length.simps)

lemma bit_length_numeral [simp]:
  "bit_length (numeral k) = Suc (bit_length (numeral k div 2))"
  by (subst bit_length.simps) simp

lemma str_of_nat_small [simp]:
  "str_of_nat 0 = [48]" "str_of_nat 1 = [49]" "str_of_nat (Suc 0) = [49]"
  by (simp_all add: str_of_nat.simps)

lemma str_of_nat_numeral [simp]:
  "str_of_nat (numeral k) =
     (if (numeral k :: nat) < 10 then [48 + numeral k]
      else str_of_nat (numeral k div 10) @ [48 + numeral k mod 10])"
  by (subst str_of_nat.simps) simp

lemmas str_eval = ustr_def py_strip_def c_strip_def py_isspace_def c_isspace_def
  ascii_digit_def py_split_def py_index_def to_ascii_def digits_value_def

lemmas float_eval = py_float_def parse_unsigned_float_def parse_exponent_def
  lower_ascii_def Let_def

lemmas round_eval = float_of_decimal_def float_of_ratio_def scale2_def round_half_even_def
  Let_def

lemmas grid_eval = grid_percent_def grid_plain_def narrow_grid_def single_cell_grid_def
  text_rating_percent_def text_rating_plain_def choejong_def news_a_names_def
  text_twice_def text_special_def

lemmas digit_eval = py_isdigit_def unicode_decimal_def in_range_def decimal_ranges_def
  other_digit_ranges_def

lemmas name_eval = teukjip_def nyuseu_def name_news_a_def name_jtbc_def name_mbn_center_def
  name_mbn_7_def name_tv_chosun_7_def name_tv_chosun_9_def

subsection \<open>The locator follows the scan order\<close>

lemma first_some_append:
  "first_some f (xs @ ys) = (case first_some f xs of None \<Rightarrow> first_some f ys | Some y \<Rightarrow> Some y)"
  by (induction xs) (auto split: option.splits)

lemma first_some_map: "first_some f (map g xs) = first_some (\<lambda>x. f (g x)) xs"
  by (induction xs) (auto split: option.splits)

lemma first_some_concat: "first_some f (concat xss) = first_some (first_some f) xss"
  by (induction xss) (auto simp: first_some_append split: option.splits)

lemma py_float_error: "py_float s = Inl e \<Longrightarrow> e = ValueError"
  by (auto simp: py_float_def Let_def split: option.splits)

lemma rating_of_cell_error:
  "rating_of_cell v n = Inl e \<Longrightarrow> e = IndexError \<or> e = ValueError"
  by (auto simp: rating_of_cell_def py_split_def py_index_def dest: py_float_error
           split: sum.splits if_splits)

lemma iloc_fillna:
  "row < nrows df \<Longrightarrow> col < ncols df \<Longrightarrow>
   iloc (fillna_astype_str df) row col =
     Inr (Some (case cell df row col of None \<Rightarrow> [] | Some s \<Rightarrow> s))"
  by (simp add: iloc_def fillna_astype_str_def)

lemma scan_rows_step:
  assumes "row < nrows df" "col < ncols df"
  shows "scan_rows (fillna_astype_str df) nm col (row # rows) =
     (case parsed_rating df nm col row of
        Some x \<Rightarrow> Inr (Some (x, row, col))
      | None \<Rightarrow> scan_rows (fillna_astype_str df) nm col rows)"
  using assms rating_of_cell_error [of "cell_text df row col" nm]
  by (auto simp: iloc_fillna parsed_rating_def candidate_def cell_text_def Let_def
           split: sum.splits)

lemma scan_rows_first:
  assumes "col < ncols df" "\<forall>r \<in> set rows. r < nrows df"
  shows "scan_rows (fillna_astype_str df) nm col rows =
     Inr (first_some (\<lambda>r. map_option (\<lambda>x. (x, r, col)) (parsed_rating df nm col r)) rows)"
  using assms
proof (induction rows)
  case Nil
  then show ?case by simp
next
  case (Cons row rows)
  then show ?case
    by (cases "parsed_rating df nm col row")
       (simp_all add: scan_rows_step del: scan_rows.simps)
qed

lemma nrows_fillna [simp]: "nrows (fillna_astype_str df) = nrows df"
  by (simp add: fillna_astype_str_def)

lemma scan_cols_first:
  assumes "nrows df = 0 \<or> (\<forall>c \<in> set cols. c < ncols df)"
  shows "scan_cols (fillna_astype_str df) nm cols =
     Inr (first_some
            (\<lambda>c. first_some (\<lambda>r. map_option (\<lambda>x. (x, r, c)) (parsed_rating df nm c r))
                   [0 ..< nrows df]) cols)"
  using assms
proof (induction cols)
  case Nil
  then show ?case by simp
next
  case (Cons col cols)
  have rows: "scan_rows (fillna_astype_str df) nm col [0 ..< nrows df] =
     Inr (first_some (\<lambda>r. map_option (\<lambda>x. (x, r, col)) (parsed_rating df nm col r))
            [0 ..< nrows df])"
  proof (cases "nrows df = 0")
    case True
    then show ?thesis by simp
  next
    case False
    with Cons.prems have "col < ncols df" by simp
    then show ?thesis by (simp add: scan_rows_first)
  qed
  from Cons have "scan_cols (fillna_astype_str df) nm cols =
     Inr (first_some
            (\<lambda>c. first_some (\<lambda>r. map_option (\<lambda>x. (x, r, c)) (parsed_rating df nm c r))
                   [0 ..< nrows df]) cols)"
    by auto
  with rows show ?case
    by (simp split: option.splits)
qed

lemma scan_names_first:
  assumes "nrows df = 0 \<or> 5 \<le> ncols df"
  shows "scan_names (fillna_astype_str df) nms =
     Inr (first_some
            (\<lambda>nm. first_some
               (\<lambda>c. first_some (\<lambda>r. map_option (\<lambda>x. (x, r, c)) (parsed_rating df nm c r))
                      [0 ..< nrows df]) [1 ..< 5]) nms)"
proof (induction nms)
  case Nil
  then show ?case by simp
next
  case (Cons nm nms)
  from assms have "nrows df = 0 \<or> (\<forall>c \<in> set [1 ..< 5]. c < ncols df)"
    by auto
  then have "scan_cols (fillna_astype_str df) nm [1 ..< 5] =
     Inr (first_some
            (\<lambda>c. first_some (\<lambda>r. map_option (\<lambda>x. (x, r, c)) (parsed_rating df nm c r))
                   [0 ..< nrows df]) [1 ..< 5])"
    by (rule scan_cols_first)
  with Cons show ?case
    by (simp split: option.splits)
qed

lemma first_some_scan_order:
  "first_some (\<lambda>(nm, c, r). g nm c r) (scan_order nms n) =
   first_some (\<lambda>nm. first_some (\<lambda>c. first_some (\<lambda>r. g nm c r) [0 ..< n]) [1 ..< 5]) nms"
  by (simp add: scan_order_def first_some_concat first_some_map)

lemma locate_refines_spec:
  assumes "nrows df = 0 \<or> 5 \<le> ncols df"
  shows "find_program_data_improved df nms = Inr (spec_locate df nms)"
  by (simp add: find_program_data_improved_def spec_locate_def scan_names_first [OF assms]
        first_some_scan_order split: option.splits)

lemma first_some_None: "\<forall>x \<in> set xs. f x = None \<Longrightarrow> first_some f xs = None"
  by (induction xs) auto

lemma first_some_upt:
  assumes "k < n" "\<forall>r < k. f r = None" "f k = Some v"
  shows "first_some f [0 ..< n] = Some v"
proof -
  have "[0 ..< n] = [0 ..< k] @ k # [Suc k ..< n]"
    using assms(1) upt_add_eq_append [of 0 k "n - k"] by (simp add: upt_conv_Cons)
  moreover have "first_some f [0 ..< k] = None"
    using assms(2) by (simp add: first_some_None)
  ultimately show ?thesis
    using assms(3) by (simp add: first_some_append)
qed

lemma py_strip_Nil [simp]: "py_strip [] = []"
  by (simp add: py_strip_def)

subsection \<open>The example cell with a rating (claim C1)\<close>

lemma rating_percent_fails: "rating_of_cell text_rating_percent name_news_a = Inl ValueError"
  by (simp add: rating_of_cell_def grid_eval name_eval str_eval float_eval)

lemma rating_plain_parses:
  "rating_of_cell text_rating_plain name_news_a = Inr (float_of_decimal False 123 (- 1))"
  by (simp add: rating_of_cell_def grid_eval name_eval str_eval float_eval)

lemma candidate_example_texts:
  "candidate name_news_a text_rating_percent" "candidate name_news_a text_rating_plain"
  by (simp_all add: candidate_def grid_eval name_eval str_eval digit_eval)

lemma strip_example_texts:
  "py_strip text_rating_percent = text_rating_percent"
  "py_strip text_rating_plain = text_rating_plain"
  by (simp_all add: grid_eval name_eval str_eval)

lemma special_not_in_percent: "\<not> py_contains (teukjip @ name_news_a) text_rating_percent"
  by (simp add: grid_eval name_eval str_eval)

text \<open>Claim C1, as stated, fails: in the grid whose only present cell is (row 3, column 2)
  with the text \<open>nyuseu-A 12.3% (choejong)\<close>, the text after the name, cut at the
  parenthesis, is \<open>12.3%\<close>; \<open>float\<close> rejects it, the cell is skipped, and the locator
  returns three nulls instead of rating 12.3 at row 3, column 2.\<close>

theorem C1_percent_counterexample:
  "find_program_data_improved grid_percent news_a_names = Inr (None, None, None) \<and>
   find_program_data_improved grid_percent news_a_names \<noteq>
     Inr (Some (float_of_decimal False 123 (- 1)), Some 3, Some 2)"
  by (simp add: find_program_data_improved_def fillna_astype_str_def iloc_def upt_rec
       grid_percent_def single_cell_grid_def news_a_names_def rating_percent_fails
       strip_example_texts special_not_in_percent Let_def)

text \<open>Claim C1, amended: for a grid in which the cell at row 3, column 2 has the text
  \<open>nyuseu-A 12.3 (choejong)\<close> (no percent sign) and no earlier cell in scan order is a
  candidate for the name, the locator called with the News A names returns the rating
  12.3 (the binary64 value of that decimal), row 3 and column 2.\<close>

theorem C1_locate_example:
  assumes dims: "3 < nrows df" "2 < ncols df"
    and target: "cell df 3 2 = Some text_rating_plain"
    and col1: "\<forall>r < nrows df. \<not> candidate name_news_a (cell_text df r 1)"
    and col2: "\<forall>r < 3. \<not> candidate name_news_a (cell_text df r 2)"
  shows "find_program_data_improved df news_a_names =
           Inr (Some (float_of_decimal False 123 (- 1)), Some 3, Some 2)"
proof -
  let ?f = "\<lambda>c r. map_option (\<lambda>x. (x, r, c)) (parsed_rating df name_news_a c r)"
  have "scan_rows (fillna_astype_str df) name_news_a 1 [0 ..< nrows df] =
          Inr (first_some (?f 1) [0 ..< nrows df])"
    using dims by (simp add: scan_rows_first)
  moreover have "first_some (?f 1) [0 ..< nrows df] = None"
    using col1 by (simp add: first_some_None parsed_rating_def)
  ultimately have one:
    "scan_rows (fillna_astype_str df) name_news_a 1 [0 ..< nrows df] = Inr None"
    by simp
  have "parsed_rating df name_news_a 2 3 = Some (float_of_decimal False 123 (- 1))"
    using target
    by (simp add: parsed_rating_def cell_text_def strip_example_texts
          candidate_example_texts rating_plain_parses)
  moreover have "\<forall>r < 3. ?f 2 r = None"
    using col2 by (simp add: parsed_rating_def)
  ultimately have "first_some (?f 2) [0 ..< nrows df] =
      Some (float_of_decimal False 123 (- 1), 3, 2)"
    using dims(1) by (intro first_some_upt [where k = 3]) simp_all
  moreover have "scan_rows (fillna_astype_str df) name_news_a 2 [0 ..< nrows df] =
          Inr (first_some (?f 2) [0 ..< nrows df])"
    using dims by (simp add: scan_rows_first)
  ultimately have two:
    "scan_rows (fillna_astype_str df) name_news_a 2 [0 ..< nrows df] =
       Inr (Some (float_of_decimal False 123 (- 1), 3, 2))"
    by simp
  have "[1 ..< 5] = [1, 2, 3, 4 :: nat]"
    by (simp add: upt_rec)
  then show ?thesis
    using one two
    by (simp add: find_program_data_improved_def news_a_names_def)
qed

theorem C1_locate_example_witness:
  "cell grid_plain 3 2 = Some text_rating_plain \<and>
   find_program_data_improved grid_plain news_a_names =
     Inr (Some (float_of_decimal False 123 (- 1)), Some 3, Some 2)"
  using C1_locate_example [of grid_plain]
  by (simp add: grid_plain_def single_cell_grid_def cell_text_def candidate_def)

subsection \<open>The locator on every grid\<close>

lemma ncols_fillna [simp]: "ncols (fillna_astype_str df) = ncols df"
  by (simp add: fillna_astype_str_def)

lemma scan_rows_missing:
  assumes "\<not> col < ncols df" "0 < nrows df"
  shows "scan_rows (fillna_astype_str df) nm col [0 ..< nrows df] = Inl IndexError"
proof -
  have "[0 ..< nrows df] = 0 # [1 ..< nrows df]"
    using assms(2) by (simp add: upt_conv_Cons)
  then show ?thesis
    using assms(1) by (simp add: iloc_def)
qed

lemma first_some_None_iff: "first_some f xs = None \<longleftrightarrow> list_all (\<lambda>x. f x = None) xs"
  by (induction xs) (auto split: option.splits)

lemma scan_cols_narrow:
  assumes "0 < nrows df" "\<not> k < ncols df" "\<forall>c \<in> set cols. c < ncols df"
  shows "scan_cols (fillna_astype_str df) nm (cols @ k # more_cols) =
     (case first_some
             (\<lambda>c. first_some (\<lambda>r. map_option (\<lambda>x. (x, r, c)) (parsed_rating df nm c r))
                    [0 ..< nrows df]) cols of
        None \<Rightarrow> Inl IndexError
      | Some hit \<Rightarrow> Inr (Some hit))"
  using assms(3)
proof (induction cols)
  case Nil
  then show ?case
    using scan_rows_missing [OF assms(2,1)] by simp
next
  case (Cons col cols)
  then have "scan_rows (fillna_astype_str df) nm col [0 ..< nrows df] =
     Inr (first_some (\<lambda>r. map_option (\<lambda>x. (x, r, col)) (parsed_rating df nm col r))
            [0 ..< nrows df])"
    by (intro scan_rows_first) simp_all
  with Cons show ?case
    by (simp split: option.splits)
qed

lemma upt_split_5: "n < 5 \<Longrightarrow> [1 ..< 5] = [1 ..< n] @ max 1 n # [Suc (max 1 n) ..< 5]"
proof -
  assume "n < 5"
  then have "n = 0 \<or> n = 1 \<or> n = 2 \<or> n = 3 \<or> n = 4" by arith
  then show ?thesis
    by (elim disjE) (simp_all add: upt_rec)
qed

lemma locate_narrow:
  assumes "0 < nrows df" "ncols df < 5"
  shows "find_program_data_improved df (nm # nms) =
     (if locate_raises df (nm # nms) then Inl IndexError
      else Inr (spec_locate df (nm # nms)))"
proof -
  let ?hits = "\<lambda>c. first_some (\<lambda>r. map_option (\<lambda>x. (x, r, c)) (parsed_rating df nm c r))
                    [0 ..< nrows df]"
  let ?k = "max 1 (ncols df)"
  have split: "[1 ..< 5] = [1 ..< ncols df] @ ?k # [Suc ?k ..< 5]"
    using assms(2) by (rule upt_split_5)
  have k: "\<not> ?k < ncols df" by simp
  have cols: "scan_cols (fillna_astype_str df) nm [1 ..< 5] =
     (case first_some ?hits [1 ..< ncols df] of
        None \<Rightarrow> Inl IndexError | Some hit \<Rightarrow> Inr (Some hit))"
    unfolding split by (rule scan_cols_narrow [OF assms(1) k]) simp
  have raises: "locate_raises df (nm # nms) \<longleftrightarrow> first_some ?hits [1 ..< ncols df] = None"
    using assms by (simp add: locate_raises_def first_some_None_iff)
  show ?thesis
  proof (cases "first_some ?hits [1 ..< ncols df]")
    case None
    with cols raises show ?thesis
      by (simp add: find_program_data_improved_def)
  next
    case (Some hit)
    have "first_some ?hits [1 ..< 5] = Some hit"
      using Some by (subst split) (simp add: first_some_append)
    then have "spec_locate df (nm # nms) =
        (case hit of (x, r, c) \<Rightarrow> (Some x, Some r, Some c))"
      by (simp add: spec_locate_def first_some_scan_order)
    with cols raises Some show ?thesis
      by (simp add: find_program_data_improved_def split: prod.splits)
  qed
qed

lemma locate_raises_wide: "nrows df = 0 \<or> 5 \<le> ncols df \<Longrightarrow> \<not> locate_raises df nms"
  by (auto simp: locate_raises_def split: list.splits)

lemma locate_exact:
  "find_program_data_improved df nms =
     (if locate_raises df nms then Inl IndexError else Inr (spec_locate df nms))"
proof (cases "nrows df = 0 \<or> 5 \<le> ncols df")
  case True
  then show ?thesis
    by (simp add: locate_refines_spec locate_raises_wide)
next
  case False
  then have n: "0 < nrows df" "ncols df < 5" by simp_all
  show ?thesis
  proof (cases nms)
    case Nil
    then show ?thesis
      by (simp add: find_program_data_improved_def spec_locate_def scan_order_def
            locate_raises_def)
  next
    case (Cons nm nms')
    then show ?thesis
      using locate_narrow [OF n] by simp
  qed
qed


lemma locate_exact_Inr:
  "find_program_data_improved df nms = Inr v \<Longrightarrow>
   \<not> locate_raises df nms \<and> spec_locate df nms = v"
  using locate_exact [of df nms] by (simp split: if_splits)

lemma locate_exact_Inl:
  "find_program_data_improved df nms = Inl e \<Longrightarrow> locate_raises df nms"
  using locate_exact [of df nms] by (simp split: if_splits)

lemma locate_narrow_hit:
  "find_program_data_improved narrow_hit_grid news_a_names =
     Inr (Some (float_of_decimal False 50 (- 1)), Some 0, Some 1)"
  by (simp add: find_program_data_improved_def fillna_astype_str_def iloc_def upt_rec
       rating_of_cell_def narrow_hit_grid_def news_a_names_def single_cell_grid_def
       name_eval str_eval float_eval digit_eval)

lemma locate_narrow_raises:
  "find_program_data_improved narrow_grid [name_news_a] = Inl IndexError"
  by (simp add: find_program_data_improved_def fillna_astype_str_def iloc_def upt_rec
       narrow_grid_def single_cell_grid_def)

subsection \<open>Scan order and candidates (claim C3)\<close>

text \<open>Claim C3, as stated, fails for the grid of one row and three columns without any
  candidate: after the columns 1 and 2 the scan reads column 3, which does not exist, and
  the positional read (outside the \<open>try\<close> block) raises \<open>IndexError\<close>; the locator does
  not return three nulls, although no position of the scan order yields a rating.\<close>

theorem C3_narrow_grid_counterexample:
  "find_program_data_improved narrow_grid [name_news_a] = Inl IndexError \<and>
   spec_locate narrow_grid [name_news_a] = (None, None, None)"
  by (simp add: find_program_data_improved_def fillna_astype_str_def iloc_def upt_rec
       spec_locate_def scan_order_def parsed_rating_def candidate_def cell_text_def
       narrow_grid_def single_cell_grid_def)

text \<open>Claim C3, amended: for every grid and every variant list, the locator scans the
  variants in list order, for each variant the columns 1 to 4 in order and within a column
  the rows from the top; a cell is a candidate iff it is non-empty, contains the variant
  and contains a digit.  The result is (rating, row, col) at the first candidate whose
  extracted rating parses, and three nulls when the scan is exhausted, unless the scan
  reaches a column that the grid does not have: exactly when the grid has rows and fewer
  than five columns and no cell of its columns from 1 on yields a rating for the first
  variant, the locator raises \<open>IndexError\<close>.  A grid with at least five columns or without
  rows never raises, and neither does an empty variant list.\<close>

theorem C3_locate_scan_order:
  "find_program_data_improved df program_names =
     (if locate_raises df program_names then Inl IndexError
      else Inr (spec_locate df program_names)) \<and>
   (nrows df = 0 \<or> 5 \<le> ncols df \<longrightarrow> \<not> locate_raises df program_names) \<and>
   scan_order [a, b] 2 =
     [(a, 1, 0), (a, 1, 1), (a, 2, 0), (a, 2, 1), (a, 3, 0), (a, 3, 1), (a, 4, 0),
      (a, 4, 1), (b, 1, 0), (b, 1, 1), (b, 2, 0), (b, 2, 1), (b, 3, 0), (b, 3, 1),
      (b, 4, 0), (b, 4, 1)]"
proof (intro conjI impI)
  show "find_program_data_improved df program_names =
     (if locate_raises df program_names then Inl IndexError
      else Inr (spec_locate df program_names))"
    by (rule locate_exact)
  show "\<not> locate_raises df program_names" if "nrows df = 0 \<or> 5 \<le> ncols df"
    using that by (rule locate_raises_wide)
  show "scan_order [a, b] 2 =
     [(a, 1, 0), (a, 1, 1), (a, 2, 0), (a, 2, 1), (a, 3, 0), (a, 3, 1), (a, 4, 0),
      (a, 4, 1), (b, 1, 0), (b, 1, 1), (b, 2, 0), (b, 2, 1), (b, 3, 0), (b, 3, 1),
      (b, 4, 0), (b, 4, 1)]"
    by (simp add: scan_order_def upt_rec)
qed

theorem C3_locate_scan_order_witness:
  "5 \<le> ncols grid_plain \<and> \<not> locate_raises grid_plain news_a_names \<and>
   find_program_data_improved grid_plain news_a_names =
     Inr (spec_locate grid_plain news_a_names) \<and>
   ncols narrow_hit_grid = 3 \<and> \<not> locate_raises narrow_hit_grid news_a_names \<and>
   spec_locate narrow_hit_grid news_a_names =
     (Some (float_of_decimal False 50 (- 1)), Some 0, Some 1) \<and>
   locate_raises narrow_grid [name_news_a]"
proof -
  have w: "5 \<le> ncols grid_plain" "ncols narrow_hit_grid = 3"
    by (simp_all add: grid_plain_def narrow_hit_grid_def single_cell_grid_def)
  from C3_locate_scan_order [of grid_plain news_a_names] w
  have a: "\<not> locate_raises grid_plain news_a_names"
    "find_program_data_improved grid_plain news_a_names =
       Inr (spec_locate grid_plain news_a_names)"
    by simp_all
  from C3_locate_scan_order [of narrow_hit_grid news_a_names] locate_narrow_hit
  have b: "\<not> locate_raises narrow_hit_grid news_a_names \<and>
    spec_locate narrow_hit_grid news_a_names =
      (Some (float_of_decimal False 50 (- 1)), Some 0, Some 1)"
    by (simp split: if_splits)
  from C3_locate_scan_order [of narrow_grid "[name_news_a]", THEN conjunct1]
    locate_narrow_raises
  have c: "locate_raises narrow_grid [name_news_a]"
    by (cases "locate_raises narrow_grid [name_news_a]") simp_all
  from w a b c show ?thesis by simp
qed

subsection \<open>The text from which the rating is parsed (claim C2)\<close>

lemma split_from_first:
  "sep \<noteq> [] \<Longrightarrow>
   split_from sep acc s =
     (if py_contains sep s
      then (acc @ before_first sep s) # split_from sep [] (after_first sep s)
      else [acc @ s])"
  by (induction s arbitrary: acc) auto

lemma before_first_absent: "\<not> py_contains sep s \<Longrightarrow> before_first sep s = s"
  by (induction s) auto

lemma split_from_second:
  "sep \<noteq> [] \<Longrightarrow> py_contains sep s \<Longrightarrow>
   py_index (split_from sep [] s) (Suc 0) = Inr (before_first sep (after_first sep s))"
  using split_from_first [of sep "[]" s] split_from_first [of sep "[]" "after_first sep s"]
  by (auto simp: py_index_def before_first_absent)

lemma split_from_index_0:
  "sep \<noteq> [] \<Longrightarrow> py_index (split_from sep [] s) 0 = Inr (before_first sep s)"
  using split_from_first [of sep "[]" s]
  by (auto simp: py_index_def before_first_absent)

lemma rating_of_cell_between:
  assumes "py_contains program_name cell_value"
  shows "rating_of_cell cell_value program_name =
     (if program_name = [] then Inl ValueError else rating_between cell_value program_name)"
  using assms
  by (simp add: rating_of_cell_def rating_between_def py_split_def split_from_second
        split_from_index_0)

text \<open>Claim C2, as stated, fails when the name occurs twice: for the candidate cell
  \<open>nyuseu-A 12.3 nyuseu-A 4.5\<close> the code parses \<open>12.3\<close> (the piece between the first and
  the second occurrence), whereas the text that follows the first occurrence,
  \<open>12.3 nyuseu-A 4.5\<close>, does not parse as a float.\<close>

theorem C2_twice_counterexample:
  "candidate name_news_a text_twice \<and>
   rating_of_cell text_twice name_news_a = Inr (float_of_decimal False 123 (- 1)) \<and>
   spec_rating text_twice name_news_a = Inl ValueError"
  by (simp add: candidate_def rating_of_cell_def spec_rating_def grid_eval name_eval str_eval
        float_eval digit_eval)

text \<open>Claim C2, amended: for every candidate cell and variant name, the rating is parsed
  from the text between the first occurrence of the name and its next occurrence (the end
  of the cell when there is none), stripped, cut at the first parenthesis and stripped
  again; an empty name gives no rating (\<open>split\<close> raises \<open>ValueError\<close>).  When the name
  does not occur again, that text is the text that follows the first occurrence.\<close>

theorem C2_rating_between_occurrences:
  assumes "candidate program_name cell_value"
  shows "rating_of_cell cell_value program_name =
           (if program_name = [] then Inl ValueError
            else rating_between cell_value program_name) \<and>
         (\<not> py_contains program_name (after_first program_name cell_value) \<longrightarrow>
            rating_between cell_value program_name = spec_rating cell_value program_name)"
  using assms
  by (simp add: candidate_def rating_of_cell_between rating_between_def spec_rating_def
        before_first_absent)

theorem C2_rating_between_occurrences_witness:
  "candidate name_news_a text_twice \<and>
   rating_of_cell text_twice name_news_a = rating_between text_twice name_news_a"
proof -
  have c: "candidate name_news_a text_twice"
    by (simp add: candidate_def grid_eval name_eval str_eval digit_eval)
  have "name_news_a \<noteq> []"
    by (simp add: name_eval)
  with C2_rating_between_occurrences [OF c] c show ?thesis
    by simp
qed

subsection \<open>A special-broadcast cell is matched by the normal name (claim C10)\<close>

lemma py_contains_Nil [simp]: "py_contains [] s"
  by (cases s) simp_all

lemma py_contains_prefix: "prefix nm s \<Longrightarrow> py_contains nm s"
  by (cases s) simp_all

lemma py_contains_append: "py_contains nm (pre @ nm @ rest)"
  by (induction pre) (simp_all add: py_contains_prefix)

lemma split_special:
  "py_split (teukjip @ name_news_a @ rest) name_news_a =
     Inr (teukjip # split_from name_news_a [] rest)"
  "py_split (name_news_a @ rest) name_news_a = Inr ([] # split_from name_news_a [] rest)"
  by (simp_all add: name_eval str_eval)

text \<open>Claim C10: the test is substring containment, so a cell that begins with the
  special-broadcast prefix contains the normal name; the rating extracted for the normal
  name from \<open>teukjip-nyuseu-A ...\<close> is the one extracted from \<open>nyuseu-A ...\<close>; and the
  locator called with the normal name alone (or with both names) finds the rating 12.3 in
  the cell \<open>teukjip-nyuseu-A 12.3\<close>.\<close>

theorem C10_special_matched_by_normal:
  "py_contains nm (pre @ nm @ rest) \<and>
   rating_of_cell (teukjip @ name_news_a @ rest) name_news_a =
     rating_of_cell (name_news_a @ rest) name_news_a \<and>
   find_program_data_improved (single_cell_grid 1 5 0 1 text_special) [name_news_a] =
     Inr (Some (float_of_decimal False 123 (- 1)), Some 0, Some 1) \<and>
   find_program_data_improved (single_cell_grid 1 5 0 1 text_special) news_a_names =
     Inr (Some (float_of_decimal False 123 (- 1)), Some 0, Some 1)"
proof (intro conjI)
  show "py_contains nm (pre @ nm @ rest)"
    by (rule py_contains_append)
  show "rating_of_cell (teukjip @ name_news_a @ rest) name_news_a =
     rating_of_cell (name_news_a @ rest) name_news_a"
    by (simp add: rating_of_cell_def split_special py_index_def)
  show "find_program_data_improved (single_cell_grid 1 5 0 1 text_special) [name_news_a] =
     Inr (Some (float_of_decimal False 123 (- 1)), Some 0, Some 1)"
    by (simp add: find_program_data_improved_def fillna_astype_str_def iloc_def upt_rec
         rating_of_cell_def grid_eval name_eval str_eval float_eval digit_eval)
  show "find_program_data_improved (single_cell_grid 1 5 0 1 text_special) news_a_names =
     Inr (Some (float_of_decimal False 123 (- 1)), Some 0, Some 1)"
    by (simp add: find_program_data_improved_def fillna_astype_str_def iloc_def upt_rec
         rating_of_cell_def grid_eval name_eval str_eval float_eval digit_eval)
qed

subsection \<open>Time conversion (claims C6 and C8)\<close>

lemma bit_length_bounds: "0 < n \<Longrightarrow> 2 ^ (bit_length n - 1) \<le> n \<and> n < 2 ^ bit_length n"
proof (induction n rule: bit_length.induct)
  case (1 n)
  show ?case
  proof (cases "n div 2 = 0")
    case True
    with 1 have "n = 1" by (auto simp: div_eq_0_iff)
    then show ?thesis by simp
  next
    case False
    with 1 have IH: "2 ^ (bit_length (n div 2) - 1) \<le> n div 2" "n div 2 < 2 ^ bit_length (n div 2)"
      by auto
    have bl: "bit_length n = Suc (bit_length (n div 2))"
      using 1(2) by (subst bit_length.simps) simp
    have pos: "0 < bit_length (n div 2)"
      using False by (subst bit_length.simps) simp
    then obtain k where k: "bit_length (n div 2) = Suc k"
      by (cases "bit_length (n div 2)") auto
    from IH show ?thesis
      unfolding bl k by simp linarith
  qed
qed

lemma round_half_even_whole: "round_half_even (a, 1) = a"
  by (simp add: round_half_even_def)

lemma float_of_ratio_nat:
  fixes n b :: nat and W :: nat
  assumes pos: "0 < n" and b: "b = bit_length n" and W: "W = 53" and small: "n < 2 ^ W"
  shows "float_of_ratio False n 1 = Finite False (n * 2 ^ (W - b)) (int b - int W)"
proof -
  from bit_length_bounds [OF pos] have lo: "2 ^ (b - 1) \<le> n" and hi: "n < 2 ^ b"
    by (simp_all add: b)
  have b1: "1 \<le> b"
    using hi pos by (cases b) auto
  have bW: "b \<le> W"
  proof (rule ccontr)
    assume "\<not> b \<le> W"
    then have "(2::nat) ^ W \<le> 2 ^ (b - 1)" by (intro power_increasing) auto
    with lo small show False by linarith
  qed
  define e0 where "e0 = int (bit_length n) - int (bit_length 1)"
  have e0: "e0 = int b - 1"
    by (simp add: e0_def b)
  have sc1: "scale2 n 1 (- e0) = (n, 2 ^ (b - 1))"
    using b1 by (cases "b = 1") (auto simp: scale2_def e0 nat_diff_distrib')
  have s1: "\<not> fst (scale2 n 1 (- e0)) < snd (scale2 n 1 (- e0))"
    unfolding sc1 using lo by simp
  have p: "max e0 (- 1022) - 52 = int b - int W"
    using b1 W by (simp add: e0)
  have s2: "scale2 n 1 (- (int b - int W)) = (n * 2 ^ (W - b), 1)"
    using bW by (simp add: scale2_def nat_diff_distrib')
  have m: "n * 2 ^ (W - b) < 2 ^ W"
  proof -
    have "n * 2 ^ (W - b) < 2 ^ b * 2 ^ (W - b)"
      using hi by simp
    also have "\<dots> = 2 ^ W"
      using bW by (simp flip: power_add)
    finally show ?thesis .
  qed
  then have ne: "n * 2 ^ (W - b) \<noteq> 2 ^ W"
    by simp
  have le: "\<not> 971 < int b - int W"
    using bW by simp
  have "float_of_ratio False n 1 =
     (let e = (if fst (scale2 n 1 (- e0)) < snd (scale2 n 1 (- e0)) then e0 - 1 else e0);
          p = max e (- 1022) - 52;
          m = round_half_even (scale2 n 1 (- p));
          m' = (if m = 2 ^ W then 2 ^ (W - 1) else m);
          p' = (if m = 2 ^ W then p + 1 else p)
      in if 971 < p' then Infinite False else Finite False m' p')"
    using pos unfolding float_of_ratio_def e0_def W by (simp only: Let_def) simp
  also have "\<dots> = Finite False (n * 2 ^ (W - b)) (int b - int W)"
    unfolding Let_def using s1 ne le
    by (simp only: if_False p s2 round_half_even_whole)
  finally show ?thesis .
qed


lemma bit_length_le:
  assumes "0 < n" "n < 2 ^ W"
  shows "bit_length n \<le> W"
proof (rule ccontr)
  assume "\<not> bit_length n \<le> W"
  then have "(2::nat) ^ W \<le> 2 ^ (bit_length n - 1)" by (intro power_increasing) auto
  with bit_length_bounds [OF assms(1)] assms(2) show False by linarith
qed

lemma float_of_nat_exact:
  assumes "n < 2 ^ 53"
  shows "int_of_float (float_of_decimal False n 0) = Inr (int n)"
proof (cases "n = 0")
  case True
  then show ?thesis by (simp add: float_of_decimal_def float_of_ratio_def)
next
  case False
  define b where "b = bit_length n"
  define W :: nat where "W = 53"
  have small: "n < 2 ^ W"
    using assms by (simp add: W_def)
  have bW: "b \<le> W"
    unfolding b_def using False small by (intro bit_length_le) simp_all
  have fr: "float_of_ratio False n 1 = Finite False (n * 2 ^ (W - b)) (int b - int W)"
    using False small by (intro float_of_ratio_nat) (simp_all add: b_def W_def)
  have d: "float_of_decimal False n 0 = float_of_ratio False n 1"
    by (simp add: float_of_decimal_def)
  have i: "int_of_float (Finite False (n * 2 ^ (W - b)) (int b - int W)) = Inr (int n)"
    using bW by (cases "b = W") (simp_all add: nat_diff_distrib')
  show ?thesis
    unfolding d fr by (rule i)
qed

text \<open>Texts made of ASCII digits.\<close>

lemma str_of_nat_digits: "list_all ascii_digit (str_of_nat n)"
proof (induction n rule: str_of_nat.induct)
  case (1 n)
  show ?case
  proof (cases "n < 10")
    case True
    then show ?thesis
      by (subst str_of_nat.simps) (simp add: ascii_digit_def)
  next
    case False
    with 1 have "list_all ascii_digit (str_of_nat (n div 10))" by simp
    moreover have "ascii_digit (48 + n mod 10)"
      by (simp add: ascii_digit_def)
    ultimately show ?thesis
      using False by (subst str_of_nat.simps) simp
  qed
qed

lemma str_of_nat_nonempty: "str_of_nat n \<noteq> []"
  by (subst str_of_nat.simps) simp

lemma digits_value_snoc: "digits_value (ds @ [c]) = 10 * digits_value ds + (c - 48)"
  by (simp add: digits_value_def)

lemma digits_value_str_of_nat: "digits_value (str_of_nat n) = n"
proof (induction n rule: str_of_nat.induct)
  case (1 n)
  show ?case
  proof (cases "n < 10")
    case True
    then show ?thesis
      by (subst str_of_nat.simps) (simp add: digits_value_def)
  next
    case False
    with 1 have "digits_value (str_of_nat (n div 10)) = n div 10" by simp
    with False show ?thesis
      by (subst str_of_nat.simps) (simp add: digits_value_snoc)
  qed
qed

lemma str_of_nat_length: "10 \<le> n \<Longrightarrow> 2 \<le> length (str_of_nat n)"
  using str_of_nat_nonempty [of "n div 10"]
  by (subst str_of_nat.simps) (cases "str_of_nat (n div 10)", simp_all)

lemma two_digits_digits: "list_all ascii_digit (two_digits n)" "two_digits n \<noteq> []"
  by (simp_all add: two_digits_def str_of_nat_digits str_of_nat_nonempty ascii_digit_def)

lemma digits_value_two_digits: "digits_value (two_digits n) = n"
  using digits_value_str_of_nat [of n]
  by (simp add: two_digits_def digits_value_def)

lemma str_of_nat_length_ge: "10 ^ k \<le> n \<Longrightarrow> k < length (str_of_nat n)"
proof (induction k arbitrary: n)
  case 0
  then show ?case
    using str_of_nat_nonempty [of n] by (cases "str_of_nat n") simp_all
next
  case (Suc k)
  have "(1::nat) \<le> 10 ^ k" by simp
  then have "(10::nat) * 1 \<le> 10 * 10 ^ k" by (rule mult_le_mono2)
  then have "(10::nat) \<le> 10 ^ Suc k" by (simp only: power_Suc mult_1_right)
  from this Suc.prems have ge: "10 \<le> n" by (rule order_trans)
  from Suc.prems have "10 ^ k \<le> n div 10"
    by (simp add: less_eq_div_iff_mult_less_eq mult.commute)
  then have "k < length (str_of_nat (n div 10))"
    by (rule Suc.IH)
  with ge show ?case
    by (subst str_of_nat.simps) simp
qed

lemma two_digits_length: "n < 100 \<Longrightarrow> length (two_digits n) = 2"
proof -
  assume n: "n < 100"
  show ?thesis
  proof (cases "n < 10")
    case True
    then have "str_of_nat n = [48 + n]"
      by (subst str_of_nat.simps) simp
    with True show ?thesis by (simp add: two_digits_def)
  next
    case False
    with n have "n div 10 < 10" by simp
    then have "str_of_nat (n div 10) = [48 + n div 10]"
      by (subst str_of_nat.simps) simp
    with False show ?thesis
      by (subst two_digits_def, subst str_of_nat.simps) simp
  qed
qed

lemma str_of_nat_le_two_digits: "length (str_of_nat n) \<le> length (two_digits n)"
  by (simp add: two_digits_def)

lemma format_02d_nat:
  assumes "length (two_digits n) \<le> int_max_str_digits"
  shows "format_02d (int n) = Inr (two_digits n)"
proof -
  have le: "\<not> int_max_str_digits < length (str_of_nat n)"
    using assms str_of_nat_le_two_digits [of n] by simp
  show ?thesis
  proof (cases "n < 10")
    case True
    then have "str_of_nat n = [48 + n]"
      by (subst str_of_nat.simps) simp
    with True le show ?thesis
      by (simp add: format_02d_def two_digits_def)
  next
    case False
    with str_of_nat_length [of n] le show ?thesis
      by (simp add: format_02d_def two_digits_def)
  qed
qed


lemma to_ascii_digits: "list_all ascii_digit ds \<Longrightarrow> to_ascii ds = ds"
proof -
  assume "list_all ascii_digit ds"
  then have "list_all (\<lambda>c. c < 128) ds"
    by (induction ds) (auto simp: ascii_digit_def)
  then show ?thesis by (simp add: to_ascii_def)
qed

lemma c_strip_digits:
  assumes "ds \<noteq> []" "list_all ascii_digit ds"
  shows "c_strip ds = ds"
proof -
  have nospace: "\<And>c. c \<in> set ds \<Longrightarrow> \<not> c_isspace c"
    using assms(2) by (auto simp: list_all_iff ascii_digit_def c_isspace_def)
  have "hd ds \<in> set ds" "last ds \<in> set ds"
    using assms(1) by simp_all
  then have "\<not> c_isspace (hd ds)" "\<not> c_isspace (hd (rev ds))"
    using nospace assms(1) by (simp_all add: hd_rev)
  then have "dropWhile c_isspace ds = ds" "dropWhile c_isspace (rev ds) = rev ds"
    using assms(1) by (cases ds, simp_all) (cases "rev ds", simp_all)
  then show ?thesis
    by (simp add: c_strip_def)
qed

lemma digitpart_digits:
  "ds \<noteq> [] \<Longrightarrow> list_all ascii_digit ds \<Longrightarrow> digitpart ds = Some ds"
  by (induction ds rule: digitpart.induct) (auto simp: ascii_digit_def)

lemma py_int_digits:
  assumes "ds \<noteq> []" "list_all ascii_digit ds"
  shows "py_int ds =
     (if int_max_str_digits < length ds then Inl ValueError
      else Inr (int (digits_value ds)))"
proof -
  have "ascii_digit (hd ds)"
    using assms by (cases ds) simp_all
  then have "hd ds \<noteq> 43" "hd ds \<noteq> 45"
    by (auto simp: ascii_digit_def)
  then show ?thesis
    using assms
    by (simp add: py_int_def to_ascii_digits c_strip_digits digitpart_digits)
qed

lemma drop_underscores_digits:
  "list_all ascii_digit ds \<Longrightarrow> prev \<noteq> 95 \<Longrightarrow> drop_underscores prev ds = Some ds"
  by (induction ds arbitrary: prev) (auto simp: ascii_digit_def)

lemma parse_unsigned_float_digits:
  assumes "ds \<noteq> []" "list_all ascii_digit ds"
  shows "parse_unsigned_float False ds = Some (float_of_decimal False (digits_value ds) 0)"
proof -
  obtain d ds' where ds: "ds = d # ds'" and d: "ascii_digit d"
    using assms by (cases ds) auto
  have "lower_ascii d \<noteq> 105" "lower_ascii d \<noteq> 110"
    using d by (auto simp: lower_ascii_def ascii_digit_def)
  then have no_word: "map lower_ascii ds \<noteq> ustr ''inf''"
    "map lower_ascii ds \<noteq> ustr ''infinity''" "map lower_ascii ds \<noteq> ustr ''nan''"
    by (simp_all add: ds ustr_def)
  have tw: "takeWhile ascii_digit ds = ds" "dropWhile ascii_digit ds = []"
    using assms(2) by (simp_all add: list_all_iff)
  show ?thesis
    using assms(1) no_word
    by (simp add: parse_unsigned_float_def tw parse_exponent_def)
qed

lemma py_float_digits:
  assumes "ds \<noteq> []" "list_all ascii_digit ds"
  shows "py_float ds = Inr (float_of_decimal False (digits_value ds) 0)"
proof -
  have "ascii_digit (hd ds)"
    using assms by (cases ds) simp_all
  then have "hd ds \<noteq> 43" "hd ds \<noteq> 45"
    by (auto simp: ascii_digit_def)
  then show ?thesis
    using assms
    by (simp add: py_float_def to_ascii_digits c_strip_digits drop_underscores_digits
          parse_unsigned_float_digits)
qed

lemma split_char_last: "c \<notin> set a \<Longrightarrow> split_from [c] acc a = [acc @ a]"
  by (induction a arbitrary: acc) auto

lemma split_char_next:
  "c \<notin> set a \<Longrightarrow> split_from [c] acc (a @ c # rest) = (acc @ a) # split_from [c] [] rest"
  by (induction a arbitrary: acc) auto

lemma digits_no_colon: "list_all ascii_digit ds \<Longrightarrow> 58 \<notin> set ds"
  by (auto simp: list_all_iff ascii_digit_def)

lemma split_hhmmss:
  "py_split (hhmmss h m s) [58] = Inr [two_digits h, two_digits m, two_digits s]"
  by (simp add: py_split_def hhmmss_def split_char_next split_char_last digits_no_colon
        two_digits_digits)

lemma time_to_seconds_hhmmss:
  assumes "m < 60" "s < 60" "length (two_digits h) \<le> int_max_str_digits"
  shows "time_to_seconds (hhmmss h m s) = Some (int h * 3600 + int m * 60 + int s)"
proof -
  have "s < 2 ^ 53" using assms by simp
  then have "int_of_float (float_of_decimal False s 0) = Inr (int s)"
    by (rule float_of_nat_exact)
  moreover have "length (two_digits m) = 2"
    using assms(1) by (intro two_digits_length) simp
  ultimately show ?thesis
    using assms(3)
    by (simp add: time_to_seconds_def time_to_seconds_try_def split_hhmmss py_index_def
          py_int_digits py_float_digits two_digits_digits digits_value_two_digits
          int_max_str_digits_def)
qed

lemma time_to_seconds_too_long:
  assumes "int_max_str_digits < length (two_digits h)"
  shows "time_to_seconds (hhmmss h m s) = None"
  using assms
  by (simp add: time_to_seconds_def time_to_seconds_try_def split_hhmmss py_index_def
        py_int_digits two_digits_digits)

lemma two_digits_long: "10 ^ k \<le> h \<Longrightarrow> k < length (two_digits h)"
  using str_of_nat_length_ge [of k h] str_of_nat_le_two_digits [of h] by simp

lemma seconds_to_time_str_hms:
  assumes "m < 60" "s < 60" "length (two_digits h) \<le> int_max_str_digits"
  shows "seconds_to_time_str (int h * 3600 + int m * 60 + int s) = Inr (hhmmss h m s)"
proof -
  define t where "t = h * 3600 + m * 60 + s"
  have t: "int h * 3600 + int m * 60 + int s = int t"
    by (simp add: t_def)
  have r: "m * 60 + s < 3600"
    using assms by simp
  have t1: "t = (m * 60 + s) + h * 3600"
    by (simp add: t_def)
  have t2: "t = s + (h * 60 + m) * 60"
    by (simp add: t_def algebra_simps)
  have "t mod 3600 = m * 60 + s"
    unfolding t1 using r by simp
  then have "t mod 3600 div 60 = m"
    using assms by simp
  moreover have "t div 3600 = h"
    unfolding t1 using r by simp
  moreover have "t mod 60 = s"
  proof -
    have "t mod 60 = s mod 60"
      unfolding t2 by (rule mod_mult_self1)
    then show ?thesis using assms by simp
  qed
  ultimately have nat_parts: "t div 3600 = h" "t mod 3600 div 60 = m" "t mod 60 = s"
    by simp_all
  have "int t div 3600 = int (t div 3600)"
    "int t mod 3600 div 60 = int (t mod 3600 div 60)"
    "int t mod 60 = int (t mod 60)"
    by (simp_all add: zdiv_int zmod_int)
  then have "int t div 3600 = int h" "int t mod 3600 div 60 = int m" "int t mod 60 = int s"
    by (simp_all only: nat_parts)
  moreover have "length (two_digits m) \<le> int_max_str_digits"
    "length (two_digits s) \<le> int_max_str_digits"
    using assms(1,2) by (simp_all add: two_digits_length int_max_str_digits_def)
  ultimately show ?thesis
    unfolding t using assms(3)
    by (simp add: seconds_to_time_str_def hhmmss_def format_02d_nat)
qed

lemma hhmmss_example: "hhmmss 9 5 30 = ustr ''09:05:30''"
  by (simp add: hhmmss_def two_digits_def ustr_def)

lemma two_digits_nine: "length (two_digits 9) \<le> int_max_str_digits"
  by (simp add: two_digits_length int_max_str_digits_def)

text \<open>Claim C6, as stated, fails for an hours field of more than 4300 digits, which the
  claim's unbounded hours allow: \<open>int\<close> raises \<open>ValueError\<close> on it, so
  \<open>time_to_seconds\<close> returns null for the text with hours \<open>10^4300\<close> (4301 digits),
  minutes 00 and seconds 00, and there is no number of seconds to convert back.\<close>

theorem C6_long_hours_counterexample:
  "4300 < length (two_digits (10 ^ 4300)) \<and>
   time_to_seconds (hhmmss (10 ^ 4300) 0 0) = None"
proof -
  have l: "4300 < length (two_digits (10 ^ 4300))"
    by (rule two_digits_long) (rule order_refl)
  then have "time_to_seconds (hhmmss (10 ^ 4300) 0 0) = None"
    by (intro time_to_seconds_too_long) (simp only: int_max_str_digits_def)
  with l show ?thesis
    by (intro conjI)
qed

text \<open>Claim C6, amended: for every time text \<open>HH:MM:SS\<close> with zero-padded two-digit
  components, minutes and seconds below 60 and an hours field of at most 4300 digits,
  \<open>time_to_seconds\<close> gives \<open>3600 * HH + 60 * MM + SS\<close> and \<open>seconds_to_time_str\<close> of
  that number is the text again; with an hours field of more than 4300 digits
  \<open>time_to_seconds\<close> returns null.  In particular \<open>09:05:30\<close> gives 32730 and 32730
  gives \<open>09:05:30\<close>.\<close>

theorem C6_time_round_trip:
  assumes "m < 60" "s < 60"
  shows "(length (two_digits h) \<le> int_max_str_digits \<longrightarrow>
            time_to_seconds (hhmmss h m s) = Some (int h * 3600 + int m * 60 + int s) \<and>
            map_option seconds_to_time_str (time_to_seconds (hhmmss h m s)) =
              Some (Inr (hhmmss h m s))) \<and>
         (int_max_str_digits < length (two_digits h) \<longrightarrow>
            time_to_seconds (hhmmss h m s) = None) \<and>
         time_to_seconds (ustr ''09:05:30'') = Some 32730 \<and>
         seconds_to_time_str 32730 = Inr (ustr ''09:05:30'')"
proof -
  have a: "length (two_digits h) \<le> int_max_str_digits \<longrightarrow>
      time_to_seconds (hhmmss h m s) = Some (int h * 3600 + int m * 60 + int s) \<and>
      map_option seconds_to_time_str (time_to_seconds (hhmmss h m s)) =
        Some (Inr (hhmmss h m s))"
  proof (intro impI conjI)
    assume len: "length (two_digits h) \<le> int_max_str_digits"
    show t: "time_to_seconds (hhmmss h m s) = Some (int h * 3600 + int m * 60 + int s)"
      using assms len by (rule time_to_seconds_hhmmss)
    show "map_option seconds_to_time_str (time_to_seconds (hhmmss h m s)) =
        Some (Inr (hhmmss h m s))"
      unfolding t using seconds_to_time_str_hms [OF assms len] by simp
  qed
  have b: "int_max_str_digits < length (two_digits h) \<longrightarrow>
      time_to_seconds (hhmmss h m s) = None"
    by (simp add: time_to_seconds_too_long)
  have c: "time_to_seconds (ustr ''09:05:30'') = Some 32730"
    using time_to_seconds_hhmmss [of 5 30 9] by (simp add: two_digits_nine hhmmss_example)
  have d: "seconds_to_time_str 32730 = Inr (ustr ''09:05:30'')"
    using seconds_to_time_str_hms [of 5 30 9] by (simp add: two_digits_nine hhmmss_example)
  from a b c d show ?thesis
    by (intro conjI)
qed

theorem C6_time_round_trip_witness:
  "(5::nat) < 60 \<and> (30::nat) < 60 \<and> length (two_digits 9) \<le> int_max_str_digits \<and>
   hhmmss 9 5 30 = ustr ''09:05:30'' \<and>
   map_option seconds_to_time_str (time_to_seconds (hhmmss 9 5 30)) =
     Some (Inr (hhmmss 9 5 30))"
  using C6_time_round_trip [of 5 30 9] by (simp add: hhmmss_example two_digits_nine)

lemma truncated_seconds: "int_of_float (float_of_decimal False 307 (- 1)) = Inr 30"
  by (simp add: round_eval)

lemma time_to_seconds_fraction: "time_to_seconds (ustr ''09:05:30.7'') = Some 32730"
  by (simp add: time_to_seconds_def time_to_seconds_try_def py_int_def int_max_str_digits_def
        str_eval float_eval truncated_seconds)

lemma time_to_seconds_examples:
  "time_to_seconds (ustr ''09:05'') = Some 32700"
  "time_to_seconds (ustr ''0905'') = None"
  "time_to_seconds (ustr ''ab:cd'') = None"
  "time_to_seconds (ustr ''09:05:xx'') = None"
  by (simp_all add: time_to_seconds_def time_to_seconds_try_def py_int_def
        int_max_str_digits_def str_eval float_eval)

text \<open>Claim C8: \<open>time_to_seconds\<close> returns an integer exactly for the texts that split at
  the colons into at least two parts of which the first two parse as integers and the third,
  when present, parses as a float with an integer part (the seconds are 0 when it is
  absent, and the float is truncated); in every other case the result is null, because
  every exception of the body is caught.  Examples: fractional seconds are truncated, two
  parts give zero seconds, one part or unparseable parts give null.\<close>

theorem C8_time_to_seconds_parse:
  "(time_to_seconds time_str = Some n \<longleftrightarrow>
     (\<exists>parts hours minutes seconds.
        py_split time_str [58] = Inr parts \<and> 2 \<le> length parts \<and>
        py_int (parts ! 0) = Inr hours \<and> py_int (parts ! 1) = Inr minutes \<and>
        (if 3 \<le> length parts
         then \<exists>f. py_float (parts ! 2) = Inr f \<and> int_of_float f = Inr seconds
         else seconds = 0) \<and>
        n = hours * 3600 + minutes * 60 + seconds)) \<and>
   (time_to_seconds time_str = None \<longleftrightarrow> (\<exists>e. time_to_seconds_try time_str = Inl e)) \<and>
   time_to_seconds (ustr ''09:05:30.7'') = Some 32730 \<and>
   time_to_seconds (ustr ''09:05'') = Some 32700 \<and>
   time_to_seconds (ustr ''0905'') = None \<and>
   time_to_seconds (ustr ''ab:cd'') = None \<and>
   time_to_seconds (ustr ''09:05:xx'') = None"
proof (intro conjI)
  show "time_to_seconds time_str = Some n \<longleftrightarrow>
     (\<exists>parts hours minutes seconds.
        py_split time_str [58] = Inr parts \<and> 2 \<le> length parts \<and>
        py_int (parts ! 0) = Inr hours \<and> py_int (parts ! 1) = Inr minutes \<and>
        (if 3 \<le> length parts
         then \<exists>f. py_float (parts ! 2) = Inr f \<and> int_of_float f = Inr seconds
         else seconds = 0) \<and>
        n = hours * 3600 + minutes * 60 + seconds)"
    by (auto simp: time_to_seconds_def time_to_seconds_try_def py_split_def py_index_def
             split: sum.splits if_splits)
  show "time_to_seconds time_str = None \<longleftrightarrow> (\<exists>e. time_to_seconds_try time_str = Inl e)"
    by (auto simp: time_to_seconds_def split: sum.splits)
qed (simp_all add: time_to_seconds_fraction time_to_seconds_examples)

subsection \<open>The structured region finder (claims C7 and C9)\<close>

lemma find_program_row_find:
  assumes "0 < ncols df" "\<forall>r \<in> set rows. r < nrows df"
  shows "find_program_row df rows = Inr (find (\<lambda>r. header_at df r 0) rows)"
  using assms by (induction rows) (auto simp: iloc_def header_at_def split: option.splits)

lemma lookup_program_row_find:
  assumes "nrows df = 0 \<or> 0 < ncols df"
  shows "lookup_program_row df =
     (case find (\<lambda>r. header_at df r 0) [0 ..< nrows df] of
        None \<Rightarrow> Inl ValueError | Some r \<Rightarrow> Inr r)"
proof (cases "nrows df = 0")
  case True
  then show ?thesis by (simp add: lookup_program_row_def)
next
  case False
  with assms have "0 < ncols df" by simp
  then show ?thesis
    by (simp add: lookup_program_row_def find_program_row_find split: option.splits)
qed

lemma find_upt_Some:
  "find P [0 ..< n] = Some r \<longleftrightarrow> r < n \<and> P r \<and> (\<forall>j < r. \<not> P j)"
  by (auto simp: find_Some_iff)

lemma find_upt_None: "find P [0 ..< n] = None \<longleftrightarrow> (\<forall>r < n. \<not> P r)"
  by (auto simp: find_None_iff)


lemma lookup_program_row_no_column:
  assumes "0 < nrows df" "ncols df = 0"
  shows "lookup_program_row df = Inl IndexError"
proof -
  have "[0 ..< nrows df] = 0 # [1 ..< nrows df]"
    using assms(1) by (simp add: upt_conv_Cons)
  then show ?thesis
    using assms by (simp add: lookup_program_row_def iloc_def)
qed

lemma lookup_program_row_cases:
  "((\<exists>e. lookup_program_row df = Inl e) \<longleftrightarrow>
      \<not> (\<exists>r < nrows df. 0 < ncols df \<and> header_at df r 0)) \<and>
   (lookup_program_row df = Inr r0 \<longleftrightarrow>
      r0 < nrows df \<and> 0 < ncols df \<and> header_at df r0 0 \<and> (\<forall>r < r0. \<not> header_at df r 0)) \<and>
   (nrows df = 0 \<or> 0 < ncols df \<longrightarrow>
      (lookup_program_row df = Inl ValueError \<longleftrightarrow> \<not> (\<exists>r < nrows df. header_at df r 0))) \<and>
   (lookup_program_row df = Inl e \<longrightarrow> find_news_a_data df = Inl e)"
proof (cases "nrows df = 0 \<or> 0 < ncols df")
  case True
  note l = lookup_program_row_find [OF True]
  have a: "lookup_program_row df = Inl ValueError \<longleftrightarrow> \<not> (\<exists>r < nrows df. header_at df r 0)"
    unfolding l using find_upt_None [of "\<lambda>r. header_at df r 0" "nrows df"]
    by (auto split: option.splits)
  have a': "(\<exists>e. lookup_program_row df = Inl e) \<longleftrightarrow> lookup_program_row df = Inl ValueError"
    unfolding l by (auto split: option.splits)
  have b: "lookup_program_row df = Inr r0 \<longleftrightarrow>
            r0 < nrows df \<and> header_at df r0 0 \<and> (\<forall>r < r0. \<not> header_at df r 0)"
    unfolding l using find_upt_Some [of "\<lambda>r. header_at df r 0" "nrows df" r0]
    by (auto split: option.splits)
  have c: "lookup_program_row df = Inl e \<longrightarrow> find_news_a_data df = Inl e"
    by (simp add: find_news_a_data_def)
  from True a a' b c show ?thesis by auto
next
  case False
  then have "lookup_program_row df = Inl IndexError"
    by (intro lookup_program_row_no_column) simp_all
  with False show ?thesis
    by (simp add: find_news_a_data_def)
qed

lemma lookup_program_row_error:
  "(lookup_program_row df = Inl ValueError \<longleftrightarrow>
      (nrows df = 0 \<or> 0 < ncols df) \<and> \<not> (\<exists>r < nrows df. header_at df r 0)) \<and>
   (lookup_program_row df = Inl IndexError \<longleftrightarrow> 0 < nrows df \<and> ncols df = 0) \<and>
   lookup_program_row df \<noteq> Inl OverflowError"
proof (cases "nrows df = 0 \<or> 0 < ncols df")
  case True
  note l = lookup_program_row_find [OF True]
  have "lookup_program_row df = Inl ValueError \<longleftrightarrow> \<not> (\<exists>r < nrows df. header_at df r 0)"
    unfolding l using find_upt_None [of "\<lambda>r. header_at df r 0" "nrows df"]
    by (auto split: option.splits)
  moreover have "lookup_program_row df \<noteq> Inl IndexError"
    "lookup_program_row df \<noteq> Inl OverflowError"
    unfolding l by (auto split: option.splits)
  ultimately show ?thesis
    using True by auto
next
  case False
  then have "lookup_program_row df = Inl IndexError"
    by (intro lookup_program_row_no_column) simp_all
  with False show ?thesis
    by simp
qed

lemma collect_program_cols_filter:
  assumes "program_row < nrows df" "\<forall>c \<in> set cols. c < ncols df"
  shows "collect_program_cols df program_row cols =
           Inr (filter (header_at df program_row) cols)"
  using assms by (induction cols) (auto simp: iloc_def header_at_def split: option.splits)

lemma find_2049_col_find:
  assumes "0 < nrows df" "\<forall>c \<in> set cols. c < ncols df"
  shows "find_2049_col df cols = Inr (find (marker_cell df) cols)"
  using assms by (induction cols) (auto simp: iloc_def marker_cell_def split: option.splits)

lemma on_match_region:
  assumes "0 < nrows df"
  shows "on_match df row program_col no_region = Inr (region_at df row program_col)"
proof -
  have "find_2049_col df [program_col ..< min (program_col + 10) (ncols df)] =
          Inr (find (marker_cell df) [program_col ..< min (program_col + 10) (ncols df)])"
    using assms by (intro find_2049_col_find) auto
  then show ?thesis
    by (simp add: on_match_def region_at_def no_region_def split: option.splits)
qed

lemma scan_news_rows_find:
  assumes "program_col < ncols df" "\<forall>r \<in> set rows. r < nrows df"
  shows "scan_news_rows df program_col rows =
           Inr (map_option (\<lambda>r. region_at df r program_col)
                  (find (\<lambda>r. news_a_cell df r program_col) rows))"
  using assms
proof (induction rows)
  case Nil
  then show ?case by simp
next
  case (Cons row rows)
  then have "0 < nrows df" by auto
  then have m: "on_match df row program_col no_region = Inr (region_at df row program_col)"
    by (rule on_match_region)
  from Cons show ?case
    by (auto simp: iloc_def news_a_cell_def m split: option.splits)
qed

lemma scan_program_cols_first:
  assumes "\<forall>c \<in> set cols. c < ncols df"
  shows "scan_program_cols df program_row cols =
           Inr (case first_some
                       (\<lambda>pc. map_option (\<lambda>r. region_at df r pc)
                                (find (\<lambda>r. news_a_cell df r pc) [program_row + 1 ..< nrows df]))
                       cols of
                  None \<Rightarrow> no_region | Some st \<Rightarrow> st)"
  using assms
proof (induction cols)
  case Nil
  then show ?case by simp
next
  case (Cons pc cols)
  then have "scan_news_rows df pc [program_row + 1 ..< nrows df] =
           Inr (map_option (\<lambda>r. region_at df r pc)
                  (find (\<lambda>r. news_a_cell df r pc) [program_row + 1 ..< nrows df]))"
    by (intro scan_news_rows_find) auto
  with Cons show ?case
    by (auto split: option.splits)
qed

lemma find_news_a_data_spec:
  assumes "lookup_program_row df = Inr program_row"
  shows "find_news_a_data df =
     Inr (case first_some
                 (\<lambda>pc. map_option (\<lambda>r. region_at df r pc)
                          (find (\<lambda>r. news_a_cell df r pc) [program_row + 1 ..< nrows df]))
                 (filter (header_at df program_row) [0 ..< ncols df]) of
            None \<Rightarrow> no_region | Some st \<Rightarrow> st)"
proof -
  from assms have "program_row < nrows df"
    using lookup_program_row_cases [of df program_row] by simp
  then have "collect_program_cols df program_row [0 ..< ncols df] =
      Inr (filter (header_at df program_row) [0 ..< ncols df])"
    by (intro collect_program_cols_filter) auto
  then show ?thesis
    using assms by (simp add: find_news_a_data_def scan_program_cols_first)
qed


lemma first_some_Some:
  "first_some f xs = Some y \<Longrightarrow> \<exists>x \<in> set xs. f x = Some y"
  by (induction xs) (auto split: option.splits)

lemma find_upt_from:
  assumes "a \<le> r" "r < n" "P r" "\<forall>j. a \<le> j \<and> j < r \<longrightarrow> \<not> P j"
  shows "find P [a ..< n] = Some r"
proof -
  have "r - a < length [a ..< n]" "[a ..< n] ! (r - a) = r"
    using assms(1,2) by simp_all
  moreover have "\<forall>j < r - a. \<not> P ([a ..< n] ! j)"
    using assms by auto
  ultimately show ?thesis
    using assms(3) unfolding find_Some_iff by metis
qed

lemma region_found:
  assumes "find_news_a_data df = Inr st" "news_a_row st = Some r"
  shows "\<exists>pr pc. lookup_program_row df = Inr pr \<and> pr < r \<and> r < nrows df \<and> pc < ncols df \<and>
           header_at df pr pc \<and> news_a_cell df r pc \<and> st = region_at df r pc"
proof -
  from assms(1) obtain pr where pr: "lookup_program_row df = Inr pr"
    by (auto simp: find_news_a_data_def split: sum.splits)
  let ?f = "\<lambda>pc. map_option (\<lambda>r. region_at df r pc)
                  (find (\<lambda>r. news_a_cell df r pc) [pr + 1 ..< nrows df])"
  let ?cols = "filter (header_at df pr) [0 ..< ncols df]"
  from find_news_a_data_spec [OF pr] assms(1)
  have st: "st = (case first_some ?f ?cols of None \<Rightarrow> no_region | Some st' \<Rightarrow> st')"
    by simp
  with assms(2) have "first_some ?f ?cols = Some st"
    by (auto simp: no_region_def split: option.splits)
  then obtain pc where pc: "pc \<in> set ?cols" "?f pc = Some st"
    by (blast dest: first_some_Some)
  then obtain r' where r': "find (\<lambda>r. news_a_cell df r pc) [pr + 1 ..< nrows df] = Some r'"
    "st = region_at df r' pc"
    by auto
  with assms(2) have "r' = r"
    by (simp add: region_at_def)
  with r' have "news_a_cell df r pc" "pr < r" "r < nrows df"
    by (auto simp: find_Some_iff)
  with pr pc(1) r' \<open>r' = r\<close> show ?thesis
    by auto
qed

lemma region_example:
  assumes "5 < nrows df" "0 < ncols df" "header_at df 0 0" "news_a_cell df 5 0"
    "\<forall>r. 0 < r \<and> r < 5 \<longrightarrow> \<not> news_a_cell df r 0"
  shows "find_news_a_data df = Inr (region_at df 5 0)"
proof -
  have pr: "lookup_program_row df = Inr 0"
    using assms(1,2,3) lookup_program_row_cases [of df 0] by simp
  have cols: "filter (header_at df 0) [0 ..< ncols df] =
      0 # filter (header_at df 0) [1 ..< ncols df]"
    using assms(2,3) by (simp add: upt_conv_Cons)
  have "find (\<lambda>r. news_a_cell df r 0) [0 + 1 ..< nrows df] = Some 5"
    using assms(1,4,5) by (intro find_upt_from) auto
  then show ?thesis
    using find_news_a_data_spec [OF pr] by (simp add: cols)
qed

lemma find_news_a_data_error:
  "find_news_a_data df = Inl e \<longleftrightarrow> lookup_program_row df = Inl e"
proof (cases "lookup_program_row df")
  case (Inl e')
  then show ?thesis
    by (simp add: find_news_a_data_def)
next
  case (Inr pr)
  then show ?thesis
    using find_news_a_data_spec [OF Inr] by simp
qed

lemma find_news_a_data_returns:
  "(\<exists>st. find_news_a_data df = Inr st) \<longleftrightarrow> (\<exists>r0. lookup_program_row df = Inr r0)"
proof (cases "lookup_program_row df")
  case (Inl e')
  then show ?thesis
    by (simp add: find_news_a_data_def)
next
  case (Inr pr)
  then show ?thesis
    using find_news_a_data_spec [OF Inr] by simp
qed

text \<open>Claim C7, as stated, fails in both directions of its equivalence.  In the grid whose
  only cell holds the header literal after a blank, no cell of column 0 equals the
  literal, yet the lookup raises nothing and returns row 0, because the code compares the
  stripped text.  In the grid with two rows and no column, no cell of column 0 equals the
  literal either, yet the error is not the explicit \<open>ValueError\<close>: the positional read of
  column 0 raises \<open>IndexError\<close> before.\<close>

theorem C7_padded_header_counterexample:
  "nrows padded_header_grid = 1 \<and> ncols padded_header_grid = 1 \<and>
   cell padded_header_grid 0 0 \<noteq> Some header_literal \<and>
   lookup_program_row padded_header_grid = Inr 0 \<and>
   nrows no_column_grid = 2 \<and> ncols no_column_grid = 0 \<and>
   lookup_program_row no_column_grid = Inl IndexError \<and>
   find_news_a_data no_column_grid = Inl IndexError"
  by (simp add: padded_header_grid_def no_column_grid_def single_cell_grid_def
        lookup_program_row_def find_news_a_data_def iloc_def upt_rec header_literal_def
        str_eval)

text \<open>Claim C7, amended: the structured region finder raises the explicit \<open>ValueError\<close>
  if and only if the grid has a column 0 or no rows, and no cell of column 0 is, once
  stripped, the header literal; so does its header-row lookup.  On a grid with rows and
  no column at all the positional read raises \<open>IndexError\<close> instead, and there is no
  other error.  When a cell of column 0 is, stripped, the header literal, the lookup
  returns the topmost such row and raises nothing, and the finder returns a result.  An
  error of the lookup is the error of \<open>find_news_a_data\<close>.\<close>

theorem C7_header_row_lookup:
  "(find_news_a_data df = Inl ValueError \<longleftrightarrow>
      (nrows df = 0 \<or> 0 < ncols df) \<and> \<not> (\<exists>r < nrows df. header_at df r 0)) \<and>
   (lookup_program_row df = Inl ValueError \<longleftrightarrow>
      (nrows df = 0 \<or> 0 < ncols df) \<and> \<not> (\<exists>r < nrows df. header_at df r 0)) \<and>
   (find_news_a_data df = Inl IndexError \<longleftrightarrow> 0 < nrows df \<and> ncols df = 0) \<and>
   (lookup_program_row df = Inl IndexError \<longleftrightarrow> 0 < nrows df \<and> ncols df = 0) \<and>
   find_news_a_data df \<noteq> Inl OverflowError \<and>
   (lookup_program_row df = Inr r0 \<longleftrightarrow>
      r0 < nrows df \<and> 0 < ncols df \<and> header_at df r0 0 \<and> (\<forall>r < r0. \<not> header_at df r 0)) \<and>
   ((\<exists>st. find_news_a_data df = Inr st) \<longleftrightarrow>
      (\<exists>r < nrows df. 0 < ncols df \<and> header_at df r 0)) \<and>
   (lookup_program_row df = Inl e \<longleftrightarrow> find_news_a_data df = Inl e)"
proof -
  note c = lookup_program_row_cases [of df r0 e]
  note l = lookup_program_row_error [of df]
  have r: "(\<exists>st. find_news_a_data df = Inr st) \<longleftrightarrow>
      (\<exists>r < nrows df. 0 < ncols df \<and> header_at df r 0)"
  proof -
    have "(\<exists>st. find_news_a_data df = Inr st) \<longleftrightarrow> \<not> (\<exists>e. lookup_program_row df = Inl e)"
      unfolding find_news_a_data_returns by (cases "lookup_program_row df") simp_all
    then show ?thesis
      using lookup_program_row_cases [of df r0 e] by simp
  qed
  show ?thesis
    unfolding find_news_a_data_error
    using c l r by (intro conjI) simp_all
qed

theorem C7_header_row_lookup_witness:
  "0 < ncols grid_region \<and> header_at grid_region 0 0 \<and>
   lookup_program_row grid_region = Inr 0 \<and>
   find_news_a_data grid_region \<noteq> Inl ValueError \<and>
   0 < ncols grid_mbn \<and> find_news_a_data grid_mbn = Inl ValueError \<and>
   header_at padded_header_grid 0 0"
proof -
  have h: "header_at grid_region 0 0" "0 < ncols grid_region" "0 < nrows grid_region"
    by (simp_all add: grid_region_def header_at_def header_literal_def py_strip_def
          py_isspace_def)
  with C7_header_row_lookup [of grid_region 0]
  have a: "lookup_program_row grid_region = Inr 0"
    "find_news_a_data grid_region \<noteq> Inl ValueError"
    by auto
  have m: "0 < ncols grid_mbn" "\<And>r. \<not> header_at grid_mbn r 0"
    by (simp_all add: grid_mbn_def single_cell_grid_def header_at_def)
  with C7_header_row_lookup [of grid_mbn 0]
  have b: "find_news_a_data grid_mbn = Inl ValueError"
    by simp
  have p: "header_at padded_header_grid 0 0"
    by (simp add: padded_header_grid_def single_cell_grid_def header_at_def
          header_literal_def str_eval)
  from h a m(1) b p show ?thesis by simp
qed


text \<open>Claim C9: when the finder returns with a News A row, that row lies below the header
  row, its cell in a header column is (stripped) one of the two News A names, and the
  result fixes the program column to that column, the time column to the next one and the
  rating column to the one after; the demographic column is the first column, among at
  most 10 columns of row 0 starting at the program column, whose cell contains the marker
  (unset when there is none).  The match is the first one: header columns in order, rows
  from the top.  In particular, for a grid with the header literal at (0, 0), the News A
  name at (5, 0) and no News A name in between, the result is row 5 and columns 0, 1, 2.\<close>

theorem C9_region_columns:
  "(find_news_a_data df = Inr st \<and> news_a_row st = Some r \<longrightarrow>
      (\<exists>pr pc. lookup_program_row df = Inr pr \<and> pr < r \<and> r < nrows df \<and> pc < ncols df \<and>
         header_at df pr pc \<and> news_a_cell df r pc \<and>
         st = \<lparr>news_a_row = Some r, found_program_col = Some pc,
                found_time_col = Some (pc + 1), found_rating_col = Some (pc + 2),
                found_2049_col = find (marker_cell df) [pc ..< min (pc + 10) (ncols df)]\<rparr>)) \<and>
   (lookup_program_row df = Inr program_row \<longrightarrow>
      find_news_a_data df =
        Inr (case first_some
                    (\<lambda>pc. map_option (\<lambda>r. region_at df r pc)
                       (find (\<lambda>r. news_a_cell df r pc) [program_row + 1 ..< nrows df]))
                    (filter (header_at df program_row) [0 ..< ncols df]) of
               None \<Rightarrow> no_region | Some st \<Rightarrow> st)) \<and>
   (5 < nrows df \<and> 0 < ncols df \<and> header_at df 0 0 \<and> news_a_cell df 5 0 \<and>
    (\<forall>r. 0 < r \<and> r < 5 \<longrightarrow> \<not> news_a_cell df r 0) \<longrightarrow>
      find_news_a_data df =
        Inr \<lparr>news_a_row = Some 5, found_program_col = Some 0,
             found_time_col = Some 1, found_rating_col = Some 2,
             found_2049_col = find (marker_cell df) [0 ..< min 10 (ncols df)]\<rparr>)"
proof (intro conjI impI)
  assume "find_news_a_data df = Inr st \<and> news_a_row st = Some r"
  then show "\<exists>pr pc. lookup_program_row df = Inr pr \<and> pr < r \<and> r < nrows df \<and> pc < ncols df \<and>
         header_at df pr pc \<and> news_a_cell df r pc \<and>
         st = \<lparr>news_a_row = Some r, found_program_col = Some pc,
                found_time_col = Some (pc + 1), found_rating_col = Some (pc + 2),
                found_2049_col = find (marker_cell df) [pc ..< min (pc + 10) (ncols df)]\<rparr>"
    using region_found [of df st r] by (simp add: region_at_def)
next
  assume "lookup_program_row df = Inr program_row"
  then show "find_news_a_data df =
        Inr (case first_some
                    (\<lambda>pc. map_option (\<lambda>r. region_at df r pc)
                       (find (\<lambda>r. news_a_cell df r pc) [program_row + 1 ..< nrows df]))
                    (filter (header_at df program_row) [0 ..< ncols df]) of
               None \<Rightarrow> no_region | Some st \<Rightarrow> st)"
    by (rule find_news_a_data_spec)
next
  assume "5 < nrows df \<and> 0 < ncols df \<and> header_at df 0 0 \<and> news_a_cell df 5 0 \<and>
    (\<forall>r. 0 < r \<and> r < 5 \<longrightarrow> \<not> news_a_cell df r 0)"
  then have "find_news_a_data df = Inr (region_at df 5 0)"
    by (intro region_example) simp_all
  then show "find_news_a_data df =
        Inr \<lparr>news_a_row = Some 5, found_program_col = Some 0,
             found_time_col = Some 1, found_rating_col = Some 2,
             found_2049_col = find (marker_cell df) [0 ..< min 10 (ncols df)]\<rparr>"
    by (simp add: region_at_def)
qed

theorem C9_region_columns_witness:
  "header_at grid_region 0 0 \<and> news_a_cell grid_region 5 0 \<and>
   find_news_a_data grid_region =
     Inr \<lparr>news_a_row = Some 5, found_program_col = Some 0, found_time_col = Some 1,
          found_rating_col = Some 2, found_2049_col = None\<rparr>"
  using C9_region_columns [of grid_region]
  by (simp add: grid_region_def header_at_def news_a_cell_def marker_cell_def
        upt_rec name_eval str_eval header_literal_def marker_2049_def)

subsection \<open>Dates and the rating aggregator (claims C4 and C5)\<close>

lemma re_digit_ascii: "ascii_digit c \<Longrightarrow> re_digit c"
  by (simp add: re_digit_def unicode_decimal_def in_range_def decimal_ranges_def ascii_digit_def)

lemma days_in_month_le: "1 \<le> m \<Longrightarrow> m \<le> 12 \<Longrightarrow> days_in_month y m \<le> 31"
proof -
  assume "1 \<le> m" "m \<le> 12"
  then have "m \<in> {1, 2, 3, 4, 5, 6, 7, 8, 9, 10, 11, 12}" by simp presburger
  then show ?thesis
    by (auto simp: days_in_month_def)
qed

lemma month_alts_two:
  assumes "ascii_digit a" "ascii_digit b" "1 \<le> digits_value [a, b]" "digits_value [a, b] \<le> 12"
  shows "\<exists>ms. month_alts (a # b # rest) = 2 # ms"
proof -
  from assms have "(a = 48 \<and> 49 \<le> b \<and> b \<le> 57) \<or> (a = 49 \<and> 48 \<le> b \<and> b \<le> 50)"
    by (auto simp: ascii_digit_def digits_value_def)
  then show ?thesis by auto
qed

lemma day_alts_two:
  assumes "ascii_digit a" "ascii_digit b" "1 \<le> digits_value [a, b]" "digits_value [a, b] \<le> 31"
  shows "\<exists>ds. day_alts (a # b # rest) = 2 # ds"
proof -
  from assms have "(a = 48 \<and> 49 \<le> b \<and> b \<le> 57) \<or> (49 \<le> a \<and> a \<le> 50) \<or>
      (a = 51 \<and> 48 \<le> b \<and> b \<le> 49)"
    by (auto simp: ascii_digit_def digits_value_def)
  then show ?thesis
    using re_digit_ascii [OF assms(2)] by auto
qed


lemma py_int_two: "ascii_digit a \<Longrightarrow> ascii_digit b \<Longrightarrow> py_int [a, b] = Inr (int (digits_value [a, b]))"
  by (simp add: py_int_digits int_max_str_digits_def)

lemma length_six:
  assumes "length s = 6"
  obtains y1 y2 m1 m2 d1 d2 where "s = [y1, y2, m1, m2, d1, d2]"
proof -
  from assms obtain y1 s1 where "s = y1 # s1" "length s1 = 5" by (cases s) auto
  moreover then obtain y2 s2 where "s1 = y2 # s2" "length s2 = 4" by (cases s1) auto
  moreover then obtain m1 s3 where "s2 = m1 # s3" "length s3 = 3" by (cases s2) auto
  moreover then obtain m2 s4 where "s3 = m2 # s4" "length s4 = 2" by (cases s3) auto
  moreover then obtain d1 s5 where "s4 = d1 # s5" "length s5 = 1" by (cases s4) auto
  moreover then obtain d2 where "s5 = [d2]" by (cases s5) auto
  ultimately show ?thesis using that by simp
qed

lemma strptime_well_formed:
  assumes "well_formed_yymmdd s"
  shows "strptime_yymmdd s = Inr (date_of_yymmdd s)"
proof -
  from assms have len: "length s = 6" by (simp add: well_formed_yymmdd_def)
  then obtain y1 y2 m1 m2 d1 d2 where s: "s = [y1, y2, m1, m2, d1, d2]"
    by (rule length_six)
  from assms have dig: "ascii_digit y1" "ascii_digit y2" "ascii_digit m1" "ascii_digit m2"
      "ascii_digit d1" "ascii_digit d2"
    by (simp_all add: well_formed_yymmdd_def s)
  define yr where "yr = full_year (digits_value [y1, y2])"
  define mo where "mo = digits_value [m1, m2]"
  define dy where "dy = digits_value [d1, d2]"
  have dt: "date_of_yymmdd s = \<lparr>year = yr, month = mo, day = dy\<rparr>"
    by (simp add: date_of_yymmdd_def s yr_def mo_def dy_def)
  from assms have rng: "1 \<le> mo" "mo \<le> 12" "1 \<le> dy" "dy \<le> days_in_month yr mo"
    unfolding well_formed_yymmdd_def dt by simp_all
  then have "dy \<le> 31"
    using days_in_month_le [of mo yr] by simp
  with dig rng obtain ds where ds: "day_alts [d1, d2] = 2 # ds"
    using day_alts_two [of d1 d2 "[]"] by (auto simp: dy_def)
  from dig rng obtain ms where ms: "month_alts [m1, m2, d1, d2] = 2 # ms"
    using month_alts_two [of m1 m2 "[d1, d2]"] by (auto simp: mo_def)
  have mm: "match_month_day [m1, m2, d1, d2] = Some ([m1, m2], [d1, d2], [])"
    by (simp add: match_month_day_def ms ds del: month_alts.simps day_alts.simps)
  show ?thesis
    unfolding dt
    using rng(4) dig
    by (auto simp add: strptime_yymmdd_def s re_digit_ascii mm py_int_two Let_def
          yr_def full_year_def mo_def [symmetric] dy_def [symmetric] add.commute
          split: if_splits)
qed


lemma rate_programs_step:
  assumes "nrows sheet_paid = 0 \<or> 5 \<le> ncols sheet_paid"
    and "nrows sheet_2049 = 0 \<or> 5 \<le> ncols sheet_2049"
  shows "rate_programs sheet_paid sheet_2049 ratings ((k, first_name # others) # rest) =
     rate_programs sheet_paid sheet_2049
       (dict_set ratings k (record_for sheet_paid sheet_2049 first_name (first_name # others)))
       rest"
  by (simp add: locate_refines_spec [OF assms(1)] locate_refines_spec [OF assms(2)]
        py_index_def record_for_def case_prod_beta)

lemma get_program_ratings_spec:
  assumes "well_formed_yymmdd date_str"
    and "nrows sheet_paid = 0 \<or> 5 \<le> ncols sheet_paid"
    and "nrows sheet_2049 = 0 \<or> 5 \<le> ncols sheet_2049"
  shows "get_program_ratings sheet_paid sheet_2049 date_str =
     Inr [(''news_a'', record_for sheet_paid sheet_2049 name_news_a
                         [name_news_a, teukjip @ name_news_a]),
          (''jtbc'', record_for sheet_paid sheet_2049 name_jtbc
                         [name_jtbc, teukjip @ name_jtbc]),
          (''mbn'', if 5 \<le> weekday (date_of_yymmdd date_str)
                    then record_for sheet_paid sheet_2049 name_mbn_center
                           [name_mbn_center, teukjip @ name_mbn_center]
                    else record_for sheet_paid sheet_2049 name_mbn_7
                           [name_mbn_7, teukjip @ name_mbn_7]),
          (''tv_chosun'', if 5 \<le> weekday (date_of_yymmdd date_str)
                    then record_for sheet_paid sheet_2049 name_tv_chosun_7
                           [name_tv_chosun_7, teukjip @ name_tv_chosun_7]
                    else record_for sheet_paid sheet_2049 name_tv_chosun_9
                           [name_tv_chosun_9, teukjip @ name_tv_chosun_9])]"
  by (simp add: get_program_ratings_def strptime_well_formed [OF assms(1)] programs_def
        rate_programs_step [OF assms(2,3)] del: rate_programs.simps(2))

lemma rate_programs_exact_step:
  "rate_programs sheet_paid sheet_2049 ratings ((k, first_name # others) # rest) =
     (if locate_raises sheet_paid (first_name # others) \<or>
         locate_raises sheet_2049 (first_name # others)
      then Inl IndexError
      else rate_programs sheet_paid sheet_2049
        (dict_set ratings k
           (record_for sheet_paid sheet_2049 first_name (first_name # others)))
        rest)"
  by (simp add: locate_exact py_index_def record_for_def case_prod_beta)

lemma get_program_ratings_exact:
  assumes "well_formed_yymmdd date_str"
  shows "get_program_ratings sheet_paid sheet_2049 date_str =
     (if list_ex (\<lambda>kn. locate_raises sheet_paid (snd kn) \<or> locate_raises sheet_2049 (snd kn))
           (programs (5 \<le> weekday (date_of_yymmdd date_str)))
      then Inl IndexError
      else Inr (map (\<lambda>kn. (fst kn, record_for sheet_paid sheet_2049 (hd (snd kn)) (snd kn)))
                  (programs (5 \<le> weekday (date_of_yymmdd date_str)))))"
proof (cases "5 \<le> weekday (date_of_yymmdd date_str)")
  case True
  then show ?thesis
    by (simp add: get_program_ratings_def strptime_well_formed [OF assms] programs_def
          rate_programs_exact_step del: rate_programs.simps(2))
next
  case False
  then show ?thesis
    by (simp add: get_program_ratings_def strptime_well_formed [OF assms] programs_def
          rate_programs_exact_step del: rate_programs.simps(2))
qed

lemmas date_eval = well_formed_yymmdd_def date_of_yymmdd_def full_year_def days_in_month_def
  is_leap_def weekday_def toordinal_def days_before_year_def days_before_month_def

lemma wf_examples:
  "well_formed_yymmdd (ustr ''240105'')" "well_formed_yymmdd (ustr ''240106'')"
  by (simp_all add: date_eval str_eval)

lemma weekday_examples:
  "weekday (date_of_yymmdd (ustr ''240105'')) = 4"
  "weekday (date_of_yymmdd (ustr ''240106'')) = 5"
  "weekday (date_of_yymmdd (ustr ''240107'')) = 6"
  "weekday (date_of_yymmdd (ustr ''240108'')) = 0"
  "year (date_of_yymmdd (ustr ''690101'')) = 1969"
  "year (date_of_yymmdd (ustr ''680101'')) = 2068"
  by (simp_all add: date_eval str_eval)

lemma locate_mbn_weekday:
  "find_program_data_improved grid_mbn mbn_weekday_names =
     Inr (Some (float_of_decimal False 81 (- 1)), Some 1, Some 1)"
  by (simp add: find_program_data_improved_def fillna_astype_str_def iloc_def upt_rec
       rating_of_cell_def grid_mbn_def mbn_weekday_names_def single_cell_grid_def
       name_eval str_eval float_eval digit_eval)

lemma locate_mbn_weekend:
  "find_program_data_improved grid_mbn mbn_weekend_names = Inr (None, None, None)"
  by (simp add: find_program_data_improved_def fillna_astype_str_def iloc_def upt_rec
       rating_of_cell_def grid_mbn_def mbn_weekend_names_def single_cell_grid_def
       name_eval str_eval float_eval digit_eval)

lemma grid_mbn_wide: "nrows grid_mbn = 0 \<or> 5 \<le> ncols grid_mbn"
  by (simp add: grid_mbn_def single_cell_grid_def)

lemma spec_locate_mbn:
  "spec_locate grid_mbn mbn_weekday_names = (Some (float_of_decimal False 81 (- 1)), Some 1, Some 1)"
  "spec_locate grid_mbn mbn_weekend_names = (None, None, None)"
  using locate_refines_spec [OF grid_mbn_wide, of mbn_weekday_names]
    locate_refines_spec [OF grid_mbn_wide, of mbn_weekend_names]
  by (simp_all add: locate_mbn_weekday locate_mbn_weekend)

text \<open>Claim C4, as stated, fails for the grid of one row and three columns without any
  candidate: with the well-formed date 240105 the first locator call raises \<open>IndexError\<close>,
  so no mapping is returned.\<close>

theorem C4_narrow_grid_counterexample:
  "well_formed_yymmdd (ustr ''240105'') \<and>
   get_program_ratings narrow_grid narrow_grid (ustr ''240105'') = Inl IndexError"
proof -
  have "find_program_data_improved narrow_grid [name_news_a, teukjip @ name_news_a] = Inl IndexError"
    by (simp add: find_program_data_improved_def fillna_astype_str_def iloc_def upt_rec
         narrow_grid_def single_cell_grid_def)
  then show ?thesis
    by (simp add: get_program_ratings_def strptime_well_formed wf_examples programs_def)
qed

lemma spec_locate_no_rows: "nrows df = 0 \<Longrightarrow> spec_locate df nms = (None, None, None)"
proof -
  assume "nrows df = 0"
  then have "scan_order nms (nrows df) = concat (map (\<lambda>nm. []) nms)"
    by (simp add: scan_order_def upt_rec)
  also have "\<dots> = []" by (induction nms) auto
  finally show ?thesis by (simp add: spec_locate_def)
qed

lemma spec_locate_mbn_others:
  "spec_locate grid_mbn [name_news_a, teukjip @ name_news_a] = (None, None, None)"
  "spec_locate grid_mbn [name_jtbc, teukjip @ name_jtbc] = (None, None, None)"
  "spec_locate grid_mbn [name_tv_chosun_9, teukjip @ name_tv_chosun_9] = (None, None, None)"
  by (simp_all add: spec_locate_def scan_order_def parsed_rating_def candidate_def
        cell_text_def grid_mbn_def single_cell_grid_def upt_rec name_eval str_eval)

lemma locate_narrow_full:
  "find_program_data_improved grid_narrow_full [name_news_a, teukjip @ name_news_a] =
     Inr (Some (float_of_decimal False 50 (- 1)), Some 0, Some 1)"
  "find_program_data_improved grid_narrow_full [name_jtbc, teukjip @ name_jtbc] =
     Inr (Some (float_of_decimal False 40 (- 1)), Some 1, Some 1)"
  "find_program_data_improved grid_narrow_full [name_mbn_7, teukjip @ name_mbn_7] =
     Inr (Some (float_of_decimal False 81 (- 1)), Some 2, Some 1)"
  "find_program_data_improved grid_narrow_full [name_tv_chosun_9, teukjip @ name_tv_chosun_9] =
     Inr (Some (float_of_decimal False 30 (- 1)), Some 3, Some 1)"
  by (simp_all add: find_program_data_improved_def fillna_astype_str_def iloc_def upt_rec
       rating_of_cell_def grid_narrow_full_def
       name_eval str_eval float_eval digit_eval)

text \<open>Claim C4, amended: for every pair of grids and every well-formed YYMMDD date text,
  \<open>get_program_ratings\<close> raises \<open>IndexError\<close> exactly when, for one of the four keys, the
  locator raises on one of the two grids (the grid has rows and fewer than five columns
  and none of its columns from 1 on yields a rating for the first variant of the key);
  otherwise it returns the mapping with exactly the four keys news_a, jtbc, mbn, tv_chosun
  in that order, in which each entry carries the locator's ratings for the two grids (null
  when there is no match) and its name is the first, non-special variant, whichever
  variant matched.\<close>

theorem C4_aggregate_entries:
  assumes "well_formed_yymmdd date_str"
  shows "(let w = (5 \<le> weekday (date_of_yymmdd date_str));
              rs = map (\<lambda>kn. (fst kn, record_for sheet_paid sheet_2049 (hd (snd kn)) (snd kn)))
                     (programs w)
          in get_program_ratings sheet_paid sheet_2049 date_str =
               (if list_ex (\<lambda>kn. locate_raises sheet_paid (snd kn) \<or>
                                   locate_raises sheet_2049 (snd kn)) (programs w)
                then Inl IndexError else Inr rs) \<and>
             map fst rs = [''news_a'', ''jtbc'', ''mbn'', ''tv_chosun''] \<and>
             map (\<lambda>kr. name (snd kr)) rs =
               [name_news_a, name_jtbc,
                if w then name_mbn_center else name_mbn_7,
                if w then name_tv_chosun_7 else name_tv_chosun_9])"
  unfolding Let_def
proof (intro conjI)
  show "get_program_ratings sheet_paid sheet_2049 date_str =
     (if list_ex (\<lambda>kn. locate_raises sheet_paid (snd kn) \<or> locate_raises sheet_2049 (snd kn))
           (programs (5 \<le> weekday (date_of_yymmdd date_str)))
      then Inl IndexError
      else Inr (map (\<lambda>kn. (fst kn, record_for sheet_paid sheet_2049 (hd (snd kn)) (snd kn)))
                  (programs (5 \<le> weekday (date_of_yymmdd date_str)))))"
    using assms by (rule get_program_ratings_exact)
qed (simp_all add: programs_def record_for_def)

theorem C4_aggregate_entries_witness:
  "well_formed_yymmdd (ustr ''240105'') \<and>
   get_program_ratings grid_mbn empty_grid (ustr ''240105'') =
     Inr [(''news_a'', \<lparr>name = name_news_a, paid = None, rating_2049 = None\<rparr>),
          (''jtbc'', \<lparr>name = name_jtbc, paid = None, rating_2049 = None\<rparr>),
          (''mbn'', \<lparr>name = name_mbn_7, paid = Some (float_of_decimal False 81 (- 1)),
                     rating_2049 = None\<rparr>),
          (''tv_chosun'', \<lparr>name = name_tv_chosun_9, paid = None, rating_2049 = None\<rparr>)] \<and>
   ncols grid_narrow_full = 3 \<and>
   get_program_ratings grid_narrow_full empty_grid (ustr ''240105'') =
     Inr [(''news_a'', \<lparr>name = name_news_a, paid = Some (float_of_decimal False 50 (- 1)),
                        rating_2049 = None\<rparr>),
          (''jtbc'', \<lparr>name = name_jtbc, paid = Some (float_of_decimal False 40 (- 1)),
                      rating_2049 = None\<rparr>),
          (''mbn'', \<lparr>name = name_mbn_7, paid = Some (float_of_decimal False 81 (- 1)),
                     rating_2049 = None\<rparr>),
          (''tv_chosun'', \<lparr>name = name_tv_chosun_9,
                           paid = Some (float_of_decimal False 30 (- 1)),
                           rating_2049 = None\<rparr>)]"
proof -
  have e: "nrows empty_grid = 0"
    by (simp add: empty_grid_def single_cell_grid_def)
  note wide = locate_raises_wide [of empty_grid] locate_raises_wide [of grid_mbn]
  have a: "get_program_ratings grid_mbn empty_grid (ustr ''240105'') =
     Inr [(''news_a'', \<lparr>name = name_news_a, paid = None, rating_2049 = None\<rparr>),
          (''jtbc'', \<lparr>name = name_jtbc, paid = None, rating_2049 = None\<rparr>),
          (''mbn'', \<lparr>name = name_mbn_7, paid = Some (float_of_decimal False 81 (- 1)),
                     rating_2049 = None\<rparr>),
          (''tv_chosun'', \<lparr>name = name_tv_chosun_9, paid = None, rating_2049 = None\<rparr>)]"
    using C4_aggregate_entries [OF wf_examples(1), of grid_mbn empty_grid] e grid_mbn_wide
      spec_locate_mbn spec_locate_mbn_others
    by (simp add: weekday_examples programs_def record_for_def locate_raises_wide
          spec_locate_no_rows mbn_weekday_names_def)
  note full = locate_narrow_full [THEN locate_exact_Inr]
  have b: "get_program_ratings grid_narrow_full empty_grid (ustr ''240105'') =
     Inr [(''news_a'', \<lparr>name = name_news_a, paid = Some (float_of_decimal False 50 (- 1)),
                        rating_2049 = None\<rparr>),
          (''jtbc'', \<lparr>name = name_jtbc, paid = Some (float_of_decimal False 40 (- 1)),
                      rating_2049 = None\<rparr>),
          (''mbn'', \<lparr>name = name_mbn_7, paid = Some (float_of_decimal False 81 (- 1)),
                     rating_2049 = None\<rparr>),
          (''tv_chosun'', \<lparr>name = name_tv_chosun_9,
                           paid = Some (float_of_decimal False 30 (- 1)),
                           rating_2049 = None\<rparr>)]"
    using C4_aggregate_entries [OF wf_examples(1), of grid_narrow_full empty_grid] e full
    by (simp add: weekday_examples programs_def record_for_def locate_raises_wide
          spec_locate_no_rows)
  have c: "ncols grid_narrow_full = 3"
    by (simp add: grid_narrow_full_def)
  from a b c wf_examples(1) show ?thesis
    by (intro conjI)
qed

lemma days_before_next_month:
  assumes "1 \<le> m" "m < 12"
  shows "days_before_month y (m + 1) = days_before_month y m + days_in_month y m"
proof -
  from assms have "m \<in> {1, 2, 3, 4, 5, 6, 7, 8, 9, 10, 11}" by simp presburger
  then show ?thesis
    by (auto simp: days_before_month_def days_in_month_def)
qed

lemma leap_100: "y mod 100 = 0 \<Longrightarrow> y mod 4 = (0::nat)"
  using mod_mod_cancel [of 4 100 y] by simp

lemma leap_400: "y mod 400 = 0 \<Longrightarrow> y mod 100 = (0::nat)"
  using mod_mod_cancel [of 100 400 y] by simp

lemma days_before_next_year:
  assumes "1 \<le> y"
  shows "days_before_year (y + 1) = days_before_year y + 365 + (if is_leap y then 1 else 0)"
proof -
  obtain k where y: "y = Suc k"
    using assms by (cases y) simp_all
  define c4 :: nat where "c4 = (if Suc k mod 4 = 0 then 1 else 0)"
  define c100 :: nat where "c100 = (if Suc k mod 100 = 0 then 1 else 0)"
  define c400 :: nat where "c400 = (if Suc k mod 400 = 0 then 1 else 0)"
  have le: "k div 100 \<le> k div 4"
    by (simp add: div_le_mono2)
  have a: "Suc k div 4 = k div 4 + c4" "Suc k div 100 = k div 100 + c100"
    "Suc k div 400 = k div 400 + c400"
    by (simp_all add: div_Suc c4_def c100_def c400_def)
  have c: "c400 \<le> c100" "c100 \<le> c4" "c4 \<le> 1"
    using leap_100 [of "Suc k"] leap_400 [of "Suc k"]
    by (auto simp: c4_def c100_def c400_def)
  define lp :: nat where "lp = (if is_leap (Suc k) then 1 else 0)"
  have l: "lp + c100 = c4 + c400"
    using leap_100 [of "Suc k"] leap_400 [of "Suc k"]
    by (auto simp: lp_def is_leap_def c4_def c100_def c400_def)
  have e1: "days_before_year (Suc k) + k div 100 = k * 365 + k div 4 + k div 400"
    using le by (simp add: days_before_year_def)
  have e2: "days_before_year (Suc (Suc k)) + (k div 100 + c100) =
      365 + k * 365 + (k div 4 + c4) + (k div 400 + c400)"
    using le c by (simp add: days_before_year_def a)
  have "days_before_year (Suc (Suc k)) = days_before_year (Suc k) + 365 + lp"
    using e1 e2 l by linarith
  then show ?thesis
    by (simp add: y lp_def)
qed

lemma toordinal_next_day:
  assumes "valid_date d"
  shows "toordinal (next_day d) = toordinal d + 1"
proof -
  from assms have v: "1 \<le> year d" "1 \<le> month d" "month d \<le> 12" "1 \<le> day d"
      "day d \<le> days_in_month (year d) (month d)"
    by (simp_all add: valid_date_def)
  consider (day) "day d < days_in_month (year d) (month d)"
    | (month) "day d = days_in_month (year d) (month d)" "month d < 12"
    | (year) "day d = days_in_month (year d) (month d)" "month d = 12"
    using v by linarith
  then show ?thesis
  proof cases
    case day
    then show ?thesis by (simp add: next_day_def toordinal_def)
  next
    case month
    then show ?thesis
      using days_before_next_month [OF v(2) month(2), of "year d"]
      by (simp add: next_day_def toordinal_def)
  next
    case year
    then have "day d = 31" by (simp add: days_in_month_def)
    with year show ?thesis
      using days_before_next_year [OF v(1)]
      by (simp add: next_day_def toordinal_def days_before_month_def)
  qed
qed

lemma weekday_next_day:
  assumes "valid_date d"
  shows "weekday (next_day d) = (weekday d + 1) mod 7"
  unfolding weekday_def toordinal_next_day [OF assms]
  by (simp add: mod_simps)

lemma valid_next_day:
  assumes "valid_date d"
  shows "valid_date (next_day d)"
proof -
  from assms have "1 \<le> month d" "month d \<le> 12"
    by (simp_all add: valid_date_def)
  then have "month d \<in> {1, 2, 3, 4, 5, 6, 7, 8, 9, 10, 11, 12}" by simp presburger
  then show ?thesis
    using assms by (auto simp: valid_date_def next_day_def days_in_month_def)
qed

lemma well_formed_valid:
  "well_formed_yymmdd s \<Longrightarrow> valid_date (date_of_yymmdd s)"
  by (simp add: well_formed_yymmdd_def valid_date_def date_of_yymmdd_def full_year_def)

lemma weekday_anchors:
  "weekday (date_of_yymmdd (ustr ''240229'')) = 3"
  "weekday (date_of_yymmdd (ustr ''240302'')) = 5"
  "weekday (date_of_yymmdd (ustr ''000101'')) = 5"
  "weekday (date_of_yymmdd (ustr ''991231'')) = 4"
  "weekday (date_of_yymmdd (ustr ''690104'')) = 5"
  "weekday (date_of_yymmdd (ustr ''681231'')) = 0"
  by (simp_all add: date_eval str_eval)

lemma next_day_examples:
  "next_day (date_of_yymmdd (ustr ''240228'')) = date_of_yymmdd (ustr ''240229'')"
  "next_day (date_of_yymmdd (ustr ''240229'')) = date_of_yymmdd (ustr ''240301'')"
  "next_day (date_of_yymmdd (ustr ''230228'')) = date_of_yymmdd (ustr ''230301'')"
  "next_day (date_of_yymmdd (ustr ''991231'')) = date_of_yymmdd (ustr ''000101'')"
  by (simp_all add: next_day_def date_eval str_eval)


text \<open>Claim C5: for a well-formed date text, \<open>strptime\<close> yields the date with the
  two-digit-year convention, and the aggregator uses the name lists of the weekend exactly
  when the weekday of that date is Saturday (5) or Sunday (6).  On a weekday the mbn key
  has the names \<open>MBN-nyuseu-7\<close> and its special form, and the grid cell
  \<open>MBN-nyuseu-7 8.1\<close> gives the rating 8.1; on a weekend it has the names
  \<open>MBN-nyuseu-senteo\<close> and its special form, and the same cell gives no match.  The
  weekday is that of the calendar: it is below 7, it advances by one (modulo 7) from every
  valid date to the day that follows it, across the ends of months, leap days and the ends
  of years, and Friday 5 January 2024 to Monday 8 January 2024 have weekdays 4, 5, 6, 0,
  Thursday 29 February 2024 has 3, Saturday 2 March 2024 has 5, Saturday 1 January 2000
  has 5, Friday 31 December 1999 has 4, Saturday 4 January 1969 has 5 and Monday
  31 December 2068 has 0.\<close>

theorem C5_weekend_names:
  assumes "well_formed_yymmdd date_str"
  shows "strptime_yymmdd date_str = Inr (date_of_yymmdd date_str) \<and>
     get_program_ratings grid_mbn grid_mbn date_str =
       rate_programs grid_mbn grid_mbn []
         (programs (5 \<le> weekday (date_of_yymmdd date_str))) \<and>
     map_of (programs False) ''mbn'' = Some mbn_weekday_names \<and>
     map_of (programs True) ''mbn'' = Some mbn_weekend_names \<and>
     find_program_data_improved grid_mbn mbn_weekday_names =
       Inr (Some (float_of_decimal False 81 (- 1)), Some 1, Some 1) \<and>
     find_program_data_improved grid_mbn mbn_weekend_names = Inr (None, None, None) \<and>
     (\<exists>rs. get_program_ratings grid_mbn grid_mbn date_str = Inr rs \<and>
        map_of rs ''mbn'' =
          Some (if 5 \<le> weekday (date_of_yymmdd date_str)
                then \<lparr>name = name_mbn_center, paid = None, rating_2049 = None\<rparr>
                else \<lparr>name = name_mbn_7, paid = Some (float_of_decimal False 81 (- 1)),
                       rating_2049 = Some (float_of_decimal False 81 (- 1))\<rparr>)) \<and>
     weekday (date_of_yymmdd (ustr ''240105'')) = 4 \<and>
     weekday (date_of_yymmdd (ustr ''240106'')) = 5 \<and>
     weekday (date_of_yymmdd (ustr ''240107'')) = 6 \<and>
     weekday (date_of_yymmdd (ustr ''240108'')) = 0 \<and>
     year (date_of_yymmdd (ustr ''690101'')) = 1969 \<and>
     year (date_of_yymmdd (ustr ''680101'')) = 2068 \<and>
     weekday (date_of_yymmdd (ustr ''240229'')) = 3 \<and>
     weekday (date_of_yymmdd (ustr ''240302'')) = 5 \<and>
     weekday (date_of_yymmdd (ustr ''000101'')) = 5 \<and>
     weekday (date_of_yymmdd (ustr ''991231'')) = 4 \<and>
     weekday (date_of_yymmdd (ustr ''690104'')) = 5 \<and>
     weekday (date_of_yymmdd (ustr ''681231'')) = 0 \<and>
     valid_date (date_of_yymmdd date_str) \<and>
     weekday (date_of_yymmdd date_str) < 7 \<and>
     (valid_date d \<longrightarrow>
        valid_date (next_day d) \<and> weekday (next_day d) = (weekday d + 1) mod 7) \<and>
     next_day (date_of_yymmdd (ustr ''240228'')) = date_of_yymmdd (ustr ''240229'') \<and>
     next_day (date_of_yymmdd (ustr ''240229'')) = date_of_yymmdd (ustr ''240301'') \<and>
     next_day (date_of_yymmdd (ustr ''230228'')) = date_of_yymmdd (ustr ''230301'') \<and>
     next_day (date_of_yymmdd (ustr ''991231'')) = date_of_yymmdd (ustr ''000101'')"
proof -
  have a: "strptime_yymmdd date_str = Inr (date_of_yymmdd date_str)"
    using assms by (rule strptime_well_formed)
  have b: "get_program_ratings grid_mbn grid_mbn date_str =
       rate_programs grid_mbn grid_mbn []
         (programs (5 \<le> weekday (date_of_yymmdd date_str)))"
    by (simp add: get_program_ratings_def a)
  have c: "map_of (programs False) ''mbn'' = Some mbn_weekday_names"
    "map_of (programs True) ''mbn'' = Some mbn_weekend_names"
    by (simp_all add: programs_def mbn_weekday_names_def mbn_weekend_names_def)
  have d: "\<exists>rs. get_program_ratings grid_mbn grid_mbn date_str = Inr rs \<and>
        map_of rs ''mbn'' =
          Some (if 5 \<le> weekday (date_of_yymmdd date_str)
                then \<lparr>name = name_mbn_center, paid = None, rating_2049 = None\<rparr>
                else \<lparr>name = name_mbn_7, paid = Some (float_of_decimal False 81 (- 1)),
                       rating_2049 = Some (float_of_decimal False 81 (- 1))\<rparr>)"
    using spec_locate_mbn
    by (simp add: get_program_ratings_spec [OF assms grid_mbn_wide grid_mbn_wide]
          record_for_def mbn_weekday_names_def mbn_weekend_names_def)
  have e: "valid_date (date_of_yymmdd date_str)"
    using assms by (rule well_formed_valid)
  have f: "weekday (date_of_yymmdd date_str) < 7"
    by (simp add: weekday_def)
  have g: "valid_date d \<longrightarrow>
      valid_date (next_day d) \<and> weekday (next_day d) = (weekday d + 1) mod 7"
    by (simp add: valid_next_day weekday_next_day)
  from a b c d locate_mbn_weekday locate_mbn_weekend weekday_examples weekday_anchors
    e f g next_day_examples
  show ?thesis
    by (intro conjI)
qed

theorem C5_weekend_names_witness:
  "well_formed_yymmdd (ustr ''240105'') \<and> well_formed_yymmdd (ustr ''240106'') \<and>
   (\<exists>rs. get_program_ratings grid_mbn grid_mbn (ustr ''240105'') = Inr rs \<and>
      map_of rs ''mbn'' =
        Some \<lparr>name = name_mbn_7, paid = Some (float_of_decimal False 81 (- 1)),
               rating_2049 = Some (float_of_decimal False 81 (- 1))\<rparr>) \<and>
   (\<exists>rs. get_program_ratings grid_mbn grid_mbn (ustr ''240106'') = Inr rs \<and>
      map_of rs ''mbn'' = Some \<lparr>name = name_mbn_center, paid = None, rating_2049 = None\<rparr>) \<and>
   valid_date (date_of_yymmdd (ustr ''240228'')) \<and>
   weekday (date_of_yymmdd (ustr ''240228'')) = 2 \<and>
   weekday (next_day (date_of_yymmdd (ustr ''240228''))) = 3"
proof -
  let ?d = "date_of_yymmdd (ustr ''240228'')"
  from C5_weekend_names [OF wf_examples(1), where d = ?d]
  have "\<exists>rs. get_program_ratings grid_mbn grid_mbn (ustr ''240105'') = Inr rs \<and>
        map_of rs ''mbn'' =
          Some (if 5 \<le> weekday (date_of_yymmdd (ustr ''240105''))
                then \<lparr>name = name_mbn_center, paid = None, rating_2049 = None\<rparr>
                else \<lparr>name = name_mbn_7, paid = Some (float_of_decimal False 81 (- 1)),
                       rating_2049 = Some (float_of_decimal False 81 (- 1))\<rparr>)"
    by (elim conjE)
  moreover from C5_weekend_names [OF wf_examples(2), where d = ?d]
  have "\<exists>rs. get_program_ratings grid_mbn grid_mbn (ustr ''240106'') = Inr rs \<and>
        map_of rs ''mbn'' =
          Some (if 5 \<le> weekday (date_of_yymmdd (ustr ''240106''))
                then \<lparr>name = name_mbn_center, paid = None, rating_2049 = None\<rparr>
                else \<lparr>name = name_mbn_7, paid = Some (float_of_decimal False 81 (- 1)),
                       rating_2049 = Some (float_of_decimal False 81 (- 1))\<rparr>)"
    by (elim conjE)
  moreover have v: "valid_date ?d" "weekday ?d = 2"
    by (simp_all add: valid_date_def date_eval str_eval)
  moreover from C5_weekend_names [OF wf_examples(1), where d = ?d]
  have "valid_date ?d \<longrightarrow>
      valid_date (next_day ?d) \<and> weekday (next_day ?d) = (weekday ?d + 1) mod 7"
    by (elim conjE)
  with v have "weekday (next_day ?d) = 3"
    by simp
  ultimately show ?thesis
    by (simp add: wf_examples weekday_examples)
qed


end
